theory Spec2Isabelle
  imports Main "HOL-Library.Sublist"
begin

section \<open>Go strings and the library functions the pipeline calls\<close>

text \<open>
  A Go string is a sequence of bytes: \<open>len\<close> counts bytes and \<open>s[:n]\<close> slices bytes.
  It is modelled as a \<^typ>\<open>string\<close>, whose characters are the 256 byte values.
\<close>

text \<open>
  \<open>strings.ReplaceAll(s, old, new)\<close> for a non-empty \<open>old\<close>: the non-overlapping
  occurrences of \<open>old\<close> are replaced from left to right. (The program only calls it with
  the non-empty literals \<open>"\n"\<close>, \<open>" "\<close> and \<open>"--"\<close>; for an empty \<open>old\<close> the
  model returns \<open>s\<close>, a case the program never reaches.)
\<close>

function ReplaceAll :: "string \<Rightarrow> string \<Rightarrow> string \<Rightarrow> string" where
  "ReplaceAll [] old new = []"
| "ReplaceAll (c # cs) old new =
     (if old \<noteq> [] \<and> prefix old (c # cs)
      then new @ ReplaceAll (drop (length old) (c # cs)) old new
      else c # ReplaceAll cs old new)"
  by pat_completeness auto
termination
  by (relation "measure (\<lambda>(s, old, new). length s)") auto

section \<open>UTF-8: runes of a Go string\<close>

text \<open>
  \<open>range\<close>, \<open>strings.Map\<close>, \<open>strings.TrimSpace\<close> and \<open>strings.ToLower\<close> read a
  string rune by rune. \<open>DecodeRuneInString\<close> follows \<open>utf8.DecodeRuneInString\<close>:
  the first byte gives the size and the range accepted for the second byte, the other
  bytes are continuation bytes, and a byte that starts no well-formed sequence decodes
  as \<open>RuneError\<close> of width 1. The masks and shifts of the Go code are written with
  \<open>mod\<close> and multiplication.
\<close>

type_synonym rune = int

definition RuneError :: rune where "RuneError = 0xFFFD"

definition first_size :: "nat \<Rightarrow> nat" where
  "first_size s0 =
     (if s0 < 0x80 then 1 else if s0 < 0xC2 then 0 else if s0 < 0xE0 then 2
      else if s0 < 0xF0 then 3 else if s0 < 0xF5 then 4 else 0)"

definition accept_lo :: "nat \<Rightarrow> nat" where
  "accept_lo s0 = (if s0 = 0xE0 then 0xA0 else if s0 = 0xF0 then 0x90 else 0x80)"

definition accept_hi :: "nat \<Rightarrow> nat" where
  "accept_hi s0 = (if s0 = 0xED then 0x9F else if s0 = 0xF4 then 0x8F else 0xBF)"

definition cont :: "nat \<Rightarrow> bool" where
  "cont b = (0x80 \<le> b \<and> b \<le> 0xBF)"

fun DecodeRuneInString :: "string \<Rightarrow> rune \<times> nat" where
  "DecodeRuneInString [] = (RuneError, 0)"
| "DecodeRuneInString (c0 # s) =
     (let s0 = of_char c0; sz = first_size s0 in
      if sz = 1 then (int s0, 1)
      else if sz = 0 \<or> length (c0 # s) < sz then (RuneError, 1)
      else let s1 = of_char (s ! 0) in
        if s1 < accept_lo s0 \<or> accept_hi s0 < s1 then (RuneError, 1)
        else if sz \<le> 2 then (int (s0 mod 32 * 64 + s1 mod 64), 2)
        else let s2 = of_char (s ! 1) in
          if \<not> cont s2 then (RuneError, 1)
          else if sz \<le> 3 then (int (s0 mod 16 * 4096 + s1 mod 64 * 64 + s2 mod 64), 3)
          else let s3 = of_char (s ! 2) in
            if \<not> cont s3 then (RuneError, 1)
            else (int (s0 mod 8 * 262144 + s1 mod 64 * 4096 + s2 mod 64 * 64 + s3 mod 64), 4))"

definition EncodeRune :: "rune \<Rightarrow> string" where
  "EncodeRune r0 =
     (let r = (if r0 < 0 \<or> 0x10FFFF < r0 \<or> (0xD800 \<le> r0 \<and> r0 \<le> 0xDFFF) then RuneError else r0);
          i = nat r
      in if i \<le> 0x7F then [char_of i]
         else if i \<le> 0x7FF then [char_of (0xC0 + i div 64), char_of (0x80 + i mod 64)]
         else if i \<le> 0xFFFF then
           [char_of (0xE0 + i div 4096), char_of (0x80 + i div 64 mod 64), char_of (0x80 + i mod 64)]
         else
           [char_of (0xF0 + i div 262144), char_of (0x80 + i div 4096 mod 64),
            char_of (0x80 + i div 64 mod 64), char_of (0x80 + i mod 64)])"

definition ValidRune :: "rune \<Rightarrow> bool" where
  "ValidRune r = (0 \<le> r \<and> r \<le> 0x10FFFF \<and> \<not> (0xD800 \<le> r \<and> r \<le> 0xDFFF))"


lemma first_size_le: "first_size b \<le> 4"
  by (simp add: first_size_def)

lemma DecodeRune_width:
  "s \<noteq> [] \<Longrightarrow> 1 \<le> snd (DecodeRuneInString s) \<and> snd (DecodeRuneInString s) \<le> length s"
proof (cases s)
  case Nil then show "s \<noteq> [] \<Longrightarrow> ?thesis" by simp
next
  case (Cons c0 t)
  show ?thesis
    unfolding Cons using first_size_le [of "of_char c0"]
    by (simp add: Let_def)
qed

lemma Decode1: "of_char c0 < (0x80::nat) \<Longrightarrow> DecodeRuneInString (c0 # rest) = (int (of_char c0), 1)"
  by (simp add: first_size_def)

lemma Decode2:
  "0xC2 \<le> (of_char c0 :: nat) \<Longrightarrow> of_char c0 < (0xE0::nat) \<Longrightarrow> cont (of_char c1) \<Longrightarrow>
   DecodeRuneInString (c0 # c1 # rest) = (int (of_char c0 mod 32 * 64 + of_char c1 mod 64), 2)"
  by (simp add: first_size_def accept_lo_def accept_hi_def cont_def)

lemma Decode3:
  "0xE0 \<le> (of_char c0 :: nat) \<Longrightarrow> of_char c0 < (0xF0::nat) \<Longrightarrow>
   accept_lo (of_char c0) \<le> of_char c1 \<Longrightarrow> of_char c1 \<le> accept_hi (of_char c0) \<Longrightarrow> cont (of_char c2) \<Longrightarrow>
   DecodeRuneInString (c0 # c1 # c2 # rest) =
     (int (of_char c0 mod 16 * 4096 + of_char c1 mod 64 * 64 + of_char c2 mod 64), 3)"
  by (simp add: first_size_def)

lemma Decode4:
  "0xF0 \<le> (of_char c0 :: nat) \<Longrightarrow> of_char c0 < (0xF5::nat) \<Longrightarrow>
   accept_lo (of_char c0) \<le> of_char c1 \<Longrightarrow> of_char c1 \<le> accept_hi (of_char c0) \<Longrightarrow>
   cont (of_char c2) \<Longrightarrow> cont (of_char c3) \<Longrightarrow>
   DecodeRuneInString (c0 # c1 # c2 # c3 # rest) =
     (int (of_char c0 mod 8 * 262144 + of_char c1 mod 64 * 4096 + of_char c2 mod 64 * 64 + of_char c3 mod 64), 4)"
  by (simp add: first_size_def)

lemma cont_tail: "cont (of_char (char_of (0x80 + (k::nat) mod 64)))"
proof -
  have "k mod 64 < 64" by simp
  then have "0x80 + k mod 64 < 256" by linarith
  then show ?thesis by (simp add: cont_def)
qed

lemma lead_mod: "(a::nat) < m \<Longrightarrow> (k * m + a) mod m = a"
  by simp

lemma tail_mod: "of_char (char_of (0x80 + (k::nat) mod 64)) mod 64 = k mod (64::nat)"
proof -
  have lt: "k mod 64 < 64" by simp
  then have "0x80 + k mod 64 < 256" by linarith
  then have "of_char (char_of (0x80 + k mod 64)) = 2 * 64 + k mod 64" by simp
  then show ?thesis using lead_mod [of "k mod 64" 64 2] lt by simp
qed

lemma of_char_char_of_lt: "n < 256 \<Longrightarrow> of_char (char_of (n::nat)) = n"
  by simp

lemma split3:
  fixes i :: nat
  obtains a b c where "i = a * 4096 + b * 64 + c" "b < 64" "c < 64"
    "a = i div 4096" "b = i div 64 mod 64" "c = i mod 64"
proof -
  have "i = (i div 64) * 64 + i mod 64" by simp
  moreover have "i div 64 = (i div 64 div 64) * 64 + i div 64 mod 64" by simp
  moreover have "i div 64 div 64 = i div 4096" by (simp add: div_mult2_eq)
  ultimately have "i = (i div 4096) * 4096 + (i div 64 mod 64) * 64 + i mod 64" by linarith
  then show ?thesis using that [of "i div 4096" "i div 64 mod 64" "i mod 64"] by simp
qed

lemma split4:
  fixes i :: nat
  obtains a b c d where "i = a * 262144 + b * 4096 + c * 64 + d" "b < 64" "c < 64" "d < 64"
    "a = i div 262144" "b = i div 4096 mod 64" "c = i div 64 mod 64" "d = i mod 64"
proof -
  have "i = (i div 64) * 64 + i mod 64" by simp
  moreover have "i div 64 = (i div 64 div 64) * 64 + i div 64 mod 64" by simp
  moreover have "i div 64 div 64 = i div 4096" by (simp add: div_mult2_eq)
  moreover have "i div 4096 = (i div 4096 div 64) * 64 + i div 4096 mod 64" by simp
  moreover have "i div 4096 div 64 = i div 262144" by (simp add: div_mult2_eq)
  ultimately have "i = (i div 262144) * 262144 + (i div 4096 mod 64) * 4096 + (i div 64 mod 64) * 64 + i mod 64"
    by linarith
  then show ?thesis
    using that [of "i div 262144" "i div 4096 mod 64" "i div 64 mod 64" "i mod 64"] by simp
qed


declare DecodeRuneInString.simps(2) [simp del]

lemma Decode_Encode2:
  assumes "0x7F < i" "i \<le> 0x7FF"
  shows "DecodeRuneInString (char_of (0xC0 + i div 64) # char_of (0x80 + i mod 64) # rest) = (int i, 2)"
proof -
  define a where "a = i div 64"
  have i: "a * 64 + i mod 64 = i" by (simp add: a_def)
  have "i mod 64 < 64" by simp
  with i assms have a: "2 \<le> a" "a < 32" by linarith+
  have c0: "of_char (char_of (0xC0 + a)) = 0xC0 + a"
    using a by simp
  have m: "(0xC0 + a) mod 32 = a" using lead_mod [of a 32 6] a by (simp add: add.commute)
  have "0xC2 \<le> 0xC0 + a" "0xC0 + a < 0xE0" using a by linarith+
  then have "DecodeRuneInString (char_of (0xC0 + a) # char_of (0x80 + i mod 64) # rest)
      = (int (a * 64 + i mod 64), 2)"
    using Decode2 [of "char_of (0xC0 + a)" "char_of (0x80 + i mod 64)" rest]
    by (simp only: c0 cont_tail tail_mod m)
  then show ?thesis unfolding i unfolding a_def .
qed

lemma Decode_Encode3:
  assumes "0x7FF < i" "i \<le> 0xFFFF" "\<not> (0xD800 \<le> i \<and> i \<le> 0xDFFF)"
  shows "DecodeRuneInString (char_of (0xE0 + i div 4096) # char_of (0x80 + i div 64 mod 64)
            # char_of (0x80 + i mod 64) # rest) = (int i, 3)"
proof -
  obtain a b c where s: "i = a * 4096 + b * 64 + c" "b < 64" "c < 64"
    and e: "a = i div 4096" "b = i div 64 mod 64" "c = i mod 64"
    by (rule split3)
  have a: "a < 16" using s assms by linarith
  have c0: "of_char (char_of (0xE0 + a)) = 0xE0 + a"
    using a by simp
  have c1: "of_char (char_of (0x80 + b)) = 0x80 + b"
    using s by simp
  have m: "(0xE0 + a) mod 16 = a" using lead_mod [of a 16 14] a by (simp add: add.commute)
  have m1: "(0x80 + b) mod 64 = b" using lead_mod [of b 64 2] s by (simp add: add.commute)
  have r: "0xE0 \<le> 0xE0 + a" "0xE0 + a < 0xF0" using a by linarith+
  have lo: "accept_lo (0xE0 + a) \<le> 0x80 + b"
    using assms s unfolding accept_lo_def by auto
  have hi: "0x80 + b \<le> accept_hi (0xE0 + a)"
    using assms s unfolding accept_hi_def by auto
  have "DecodeRuneInString (char_of (0xE0 + a) # char_of (0x80 + b) # char_of (0x80 + i mod 64) # rest)
      = (int (a * 4096 + b * 64 + i mod 64), 3)"
    using Decode3 [of "char_of (0xE0 + a)" "char_of (0x80 + b)" "char_of (0x80 + i mod 64)" rest] r lo hi
    by (simp only: c0 c1 cont_tail tail_mod m m1)
  then have "DecodeRuneInString (char_of (0xE0 + a) # char_of (0x80 + b) # char_of (0x80 + i mod 64) # rest)
      = (int i, 3)"
    unfolding e(3) [symmetric] s(1) [symmetric] .
  then show ?thesis unfolding e .
qed

lemma Decode_Encode4:
  assumes "0xFFFF < i" "i \<le> 0x10FFFF"
  shows "DecodeRuneInString (char_of (0xF0 + i div 262144) # char_of (0x80 + i div 4096 mod 64)
            # char_of (0x80 + i div 64 mod 64) # char_of (0x80 + i mod 64) # rest) = (int i, 4)"
proof -
  obtain a b c d where s: "i = a * 262144 + b * 4096 + c * 64 + d" "b < 64" "c < 64" "d < 64"
    and e: "a = i div 262144" "b = i div 4096 mod 64" "c = i div 64 mod 64" "d = i mod 64"
    by (rule split4)
  have a: "a < 5" using s assms by linarith
  have c0: "of_char (char_of (0xF0 + a)) = 0xF0 + a"
    using a by simp
  have c1: "of_char (char_of (0x80 + b)) = 0x80 + b"
    using s by simp
  have m: "(0xF0 + a) mod 8 = a" using lead_mod [of a 8 30] a by (simp add: add.commute)
  have m1: "(0x80 + b) mod 64 = b" using lead_mod [of b 64 2] s by (simp add: add.commute)
  have r: "0xF0 \<le> 0xF0 + a" "0xF0 + a < 0xF5" using a by linarith+
  have lo: "accept_lo (0xF0 + a) \<le> 0x80 + b"
    using assms s unfolding accept_lo_def by auto
  have hi: "0x80 + b \<le> accept_hi (0xF0 + a)"
    using assms s unfolding accept_hi_def by auto
  have "DecodeRuneInString (char_of (0xF0 + a) # char_of (0x80 + b) # char_of (0x80 + i div 64 mod 64)
          # char_of (0x80 + i mod 64) # rest)
      = (int (a * 262144 + b * 4096 + i div 64 mod 64 * 64 + i mod 64), 4)"
    using Decode4 [of "char_of (0xF0 + a)" "char_of (0x80 + b)" "char_of (0x80 + i div 64 mod 64)"
        "char_of (0x80 + i mod 64)" rest] r lo hi
    by (simp only: c0 c1 cont_tail tail_mod m m1)
  then have "DecodeRuneInString (char_of (0xF0 + a) # char_of (0x80 + b) # char_of (0x80 + c)
          # char_of (0x80 + d) # rest) = (int i, 4)"
    unfolding e(3,4) [symmetric] s(1) [symmetric] .
  then show ?thesis unfolding e .
qed

lemma Decode_Encode:
  assumes "ValidRune r"
  shows "DecodeRuneInString (EncodeRune r @ rest) = (r, length (EncodeRune r))"
proof -
  define i where "i = nat r"
  have r: "r = int i" and i: "i \<le> 0x10FFFF" "\<not> (0xD800 \<le> i \<and> i \<le> 0xDFFF)"
    using assms by (auto simp: ValidRune_def i_def)
  have enc: "EncodeRune r = (if i \<le> 0x7F then [char_of i]
         else if i \<le> 0x7FF then [char_of (0xC0 + i div 64), char_of (0x80 + i mod 64)]
         else if i \<le> 0xFFFF then
           [char_of (0xE0 + i div 4096), char_of (0x80 + i div 64 mod 64), char_of (0x80 + i mod 64)]
         else
           [char_of (0xF0 + i div 262144), char_of (0x80 + i div 4096 mod 64),
            char_of (0x80 + i div 64 mod 64), char_of (0x80 + i mod 64)])"
  proof -
    have "\<not> (r < 0 \<or> 0x10FFFF < r \<or> (0xD800 \<le> r \<and> r \<le> 0xDFFF))"
      using assms by (auto simp: ValidRune_def)
    then show ?thesis
      unfolding EncodeRune_def i_def by (simp only: if_False Let_def)
  qed
  consider "i \<le> 0x7F" | "0x7F < i" "i \<le> 0x7FF" | "0x7FF < i" "i \<le> 0xFFFF" | "0xFFFF < i"
    by linarith
  then show ?thesis
  proof cases
    case 1
    then show ?thesis
      unfolding enc using Decode1 [of "char_of i" rest] by (simp add: r)
  next
    case 2
    then show ?thesis unfolding enc using Decode_Encode2 [of i rest] by (simp add: r)
  next
    case 3
    then show ?thesis unfolding enc using Decode_Encode3 [of i rest] i by (simp add: r)
  next
    case 4
    then show ?thesis unfolding enc using Decode_Encode4 [of i rest] i by (simp add: r)
  qed
qed


lemma mod_sub: "k * m \<le> x \<Longrightarrow> x < k * m + m \<Longrightarrow> x mod m = x - k * (m::nat)"
proof -
  assume a: "k * m \<le> x" "x < k * m + m"
  then have "x = k * m + (x - k * m)" "x - k * m < m" by linarith+
  then show ?thesis using lead_mod [of "x - k * m" m k] by simp
qed

lemma ValidRune_RuneError: "ValidRune RuneError"
  by (simp add: ValidRune_def RuneError_def)

lemma ValidRune_int: "v \<le> 0x10FFFF \<Longrightarrow> \<not> (0xD800 \<le> v \<and> v \<le> (0xDFFF::nat)) \<Longrightarrow> ValidRune (int v)"
  by (simp add: ValidRune_def)

lemma accept_cont: "accept_lo s0 \<le> s1 \<Longrightarrow> s1 \<le> accept_hi s0 \<Longrightarrow> cont s1"
  by (auto simp: accept_lo_def accept_hi_def cont_def split: if_splits)

lemma cont_mod: "cont b \<Longrightarrow> \<exists>k<64. b mod 64 = k \<and> b = 128 + k"
proof -
  assume "cont b"
  then have b: "2 * 64 \<le> b" "b < 2 * 64 + 64" by (simp_all add: cont_def)
  then have "b mod 64 = b - 2 * 64" by (rule mod_sub)
  then show ?thesis using b by simp
qed

lemma Decode_valid1: "s0 < 0x80 \<Longrightarrow> ValidRune (int s0)"
  by (simp add: ValidRune_def)

lemma Decode_valid2:
  assumes "\<not> s0 < 0xC2" "s0 < (0xE0::nat)" "\<not> s1 < accept_lo s0" "\<not> accept_hi s0 < s1"
  shows "ValidRune (int (s0 mod 32 * 64 + s1 mod 64))"
proof -
  have a: "s0 mod 32 = s0 - 6 * 32" using assms by (intro mod_sub) simp_all
  have "cont s1" using assms by (intro accept_cont [of s0]) simp_all
  then obtain k where k: "k < 64" "s1 mod 64 = k" using cont_mod by blast
  have "(s0 - 6 * 32) * 64 + k \<le> 0x7FF" using assms k by simp
  then show ?thesis unfolding a k(2) by (intro ValidRune_int) simp_all
qed

lemma Decode_valid3:
  assumes "\<not> s0 < 0xE0" "s0 < (0xF0::nat)" "\<not> s1 < accept_lo s0" "\<not> accept_hi s0 < s1" "cont s2"
  shows "ValidRune (int (s0 mod 16 * 4096 + s1 mod 64 * 64 + s2 mod 64))"
proof -
  define a where "a = s0 - 14 * 16"
  have a: "s0 mod 16 = a" unfolding a_def using assms by (intro mod_sub) simp_all
  have a16: "a < 16" "s0 = 224 + a" using assms by (simp_all add: a_def)
  have "cont s1" using assms by (intro accept_cont [of s0]) simp_all
  then obtain k where k: "k < 64" "s1 mod 64 = k" and k': "s1 = 128 + k" using cont_mod by blast
  obtain j where j: "j < 64" "s2 mod 64 = j" using cont_mod [OF assms(5)] by blast
  have sur: "a = 13 \<Longrightarrow> k < 32" using assms(4) a16 k' by (simp add: accept_hi_def)
  have "a * 4096 + k * 64 + j \<le> 0xFFFF" using a16 k j by simp
  moreover have "\<not> (0xD800 \<le> a * 4096 + k * 64 + j \<and> a * 4096 + k * 64 + j \<le> 0xDFFF)"
  proof (cases "a = 13")
    case True
    then show ?thesis using sur j by simp
  next
    case False
    then consider "a \<le> 12" | "14 \<le> a" by linarith
    then show ?thesis using k j by cases simp_all
  qed
  ultimately show ?thesis unfolding a k(2) j(2) by (intro ValidRune_int) simp_all
qed

lemma Decode_valid4:
  assumes "\<not> s0 < 0xF0" "s0 < (0xF5::nat)" "\<not> s1 < accept_lo s0" "\<not> accept_hi s0 < s1" "cont s2" "cont s3"
  shows "ValidRune (int (s0 mod 8 * 262144 + s1 mod 64 * 4096 + s2 mod 64 * 64 + s3 mod 64))"
proof -
  define a where "a = s0 - 30 * 8"
  have a: "s0 mod 8 = a" unfolding a_def using assms by (intro mod_sub) simp_all
  have a5: "a < 5" "s0 = 240 + a" using assms by (simp_all add: a_def)
  have "cont s1" using assms by (intro accept_cont [of s0]) simp_all
  then obtain k where k: "k < 64" "s1 mod 64 = k" and k': "s1 = 128 + k" using cont_mod by blast
  obtain j where j: "j < 64" "s2 mod 64 = j" using cont_mod [OF assms(5)] by blast
  obtain l where l: "l < 64" "s3 mod 64 = l" using cont_mod [OF assms(6)] by blast
  have top: "a = 4 \<Longrightarrow> k < 16" using assms(4) a5 k' by (simp add: accept_hi_def)
  have "a * 262144 + k * 4096 + j * 64 + l \<le> 0x10FFFF"
  proof (cases "a = 4")
    case True
    then show ?thesis using top j l by simp
  next
    case False
    then have "a \<le> 3" using a5 by simp
    then show ?thesis using k j l by simp
  qed
  moreover have "0x10000 \<le> a * 262144 + k * 4096 + j * 64 + l"
  proof (cases "a = 0")
    case True
    then have "16 \<le> k" using assms(3) a5 k' by (simp add: accept_lo_def)
    then show ?thesis by simp
  next
    case False
    then show ?thesis by simp
  qed
  ultimately show ?thesis unfolding a k(2) j(2) l(2) by (intro ValidRune_int) simp_all
qed

lemma Decode_valid: "ValidRune (fst (DecodeRuneInString s))"
proof (cases s)
  case Nil
  then show ?thesis by (simp add: ValidRune_RuneError)
next
  case (Cons c0 t)
  define s0 :: nat where "s0 = of_char c0"
  have s0: "s0 < 256" by (simp add: s0_def)
  show ?thesis
    unfolding Cons DecodeRuneInString.simps Let_def s0_def [symmetric]
    using s0
    by (simp add: ValidRune_RuneError first_size_def Decode_valid1 Decode_valid2
          Decode_valid3 Decode_valid4 del: of_nat_add of_nat_mult)
qed

subsection \<open>The runes of a string\<close>

text \<open>
  \<open>chunks s\<close> is what a \<open>for i, r := range s\<close> loop visits: each rune with the
  bytes it was decoded from. An ill-formed byte is a chunk of its own with the rune
  \<open>RuneError\<close>.
\<close>

function chunks :: "string \<Rightarrow> (rune \<times> string) list" where
  "chunks s =
     (if s = [] then []
      else (let (r, w) = DecodeRuneInString s in (r, take w s) # chunks (drop w s)))"
  by pat_completeness auto
termination
proof (relation "measure length")
  show "wf (measure length)" by simp
next
  fix s :: string and x :: "rune \<times> nat" and r w
  assume "s \<noteq> []" "x = DecodeRuneInString s" "(r, w) = x"
  then have "1 \<le> w" using DecodeRune_width [of s] by (metis snd_conv)
  then show "(drop w s, s) \<in> measure length" using \<open>s \<noteq> []\<close> by simp
qed

declare chunks.simps [simp del]

definition runes :: "string \<Rightarrow> rune list" where
  "runes s = map fst (chunks s)"

lemma chunks_Nil [simp]: "chunks [] = []"
  by (simp add: chunks.simps)

lemma chunks_Cons:
  "s \<noteq> [] \<Longrightarrow> chunks s =
     (fst (DecodeRuneInString s), take (snd (DecodeRuneInString s)) s)
       # chunks (drop (snd (DecodeRuneInString s)) s)"
  by (subst chunks.simps) (simp add: case_prod_beta)

lemma runes_Nil [simp]: "runes [] = []"
  by (simp add: runes_def)

lemma concat_chunks: "concat (map snd (chunks s)) = s"
proof (induction s rule: chunks.induct)
  case (1 s)
  show ?case
  proof (cases "s = []")
    case True then show ?thesis by simp
  next
    case False
    obtain r w where d: "DecodeRuneInString s = (r, w)" by (cases "DecodeRuneInString s")
    have "concat (map snd (chunks (drop w s))) = drop w s"
      using 1 [OF False d [symmetric] refl] .
    then show ?thesis using False d by (simp add: chunks_Cons)
  qed
qed

lemma runes_valid: "r \<in> set (runes s) \<Longrightarrow> ValidRune r"
proof (induction s rule: chunks.induct)
  case (1 s)
  show ?case
  proof (cases "s = []")
    case True then show ?thesis using 1(2) by simp
  next
    case False
    obtain r0 w where d: "DecodeRuneInString s = (r0, w)" by (cases "DecodeRuneInString s")
    have "ValidRune r0" using Decode_valid [of s] d by simp
    moreover have "r \<in> set (runes (drop w s)) \<Longrightarrow> ValidRune r"
      using 1(1) [OF False d [symmetric] refl] .
    ultimately show ?thesis using 1(2) False d by (auto simp: runes_def chunks_Cons)
  qed
qed

lemma EncodeRune_nonempty: "EncodeRune r \<noteq> []"
  by (simp add: EncodeRune_def Let_def)

lemma chunks_Encode_append:
  assumes "ValidRune r"
  shows "chunks (EncodeRune r @ rest) = (r, EncodeRune r) # chunks rest"
proof -
  have ne: "EncodeRune r @ rest \<noteq> []" using EncodeRune_nonempty by simp
  show ?thesis
    by (subst chunks_Cons [OF ne]) (simp add: Decode_Encode [OF assms])
qed

lemma chunks_concat_Encode:
  "\<forall>r\<in>set rs. ValidRune r \<Longrightarrow>
   chunks (concat (map EncodeRune rs)) = map (\<lambda>r. (r, EncodeRune r)) rs"
  by (induction rs) (simp_all add: chunks_Encode_append)

lemma runes_concat_Encode:
  "\<forall>r\<in>set rs. ValidRune r \<Longrightarrow> runes (concat (map EncodeRune rs)) = rs"
  by (simp add: runes_def chunks_concat_Encode comp_def)


text \<open>
  \<open>strings.Map(mapping, s)\<close>: every rune of \<open>s\<close> is mapped, a negative result drops
  the rune, the others are written in UTF-8.
\<close>

definition Map :: "(rune \<Rightarrow> rune) \<Rightarrow> string \<Rightarrow> string" where
  "Map mapping s = concat (map EncodeRune (filter (\<lambda>r. 0 \<le> r) (map mapping (runes s))))"

definition invalid_chunk :: "rune \<times> string \<Rightarrow> bool" where
  "invalid_chunk c = (fst c = RuneError \<and> length (snd c) = 1)"

definition ValidString :: "string \<Rightarrow> bool" where
  "ValidString s = list_all (\<lambda>c. \<not> invalid_chunk c) (chunks s)"

text \<open>\<open>strings.ToValidUTF8(s, "")\<close>: the ill-formed bytes are removed.\<close>

definition ToValidUTF8 :: "string \<Rightarrow> string" where
  "ToValidUTF8 s = concat (map snd (filter (\<lambda>c. \<not> invalid_chunk c) (chunks s)))"

subsection \<open>Package unicode\<close>

text \<open>
  The range tables of Go's \<open>unicode\<close> package are not part of the repository. For the
  Latin-1 runes the predicates are written out as the package's \<open>properties\<close> array has
  them; beyond Latin-1 (beyond ASCII for the case mapping) the tables are parameters.
\<close>

record unicode_tables =
  PrintRanges :: "rune \<Rightarrow> bool"
  LowerCase :: "rune \<Rightarrow> rune"

definition IsPrint :: "unicode_tables \<Rightarrow> rune \<Rightarrow> bool" where
  "IsPrint U r =
     (if 0 \<le> r \<and> r \<le> 0xFF
      then (0x20 \<le> r \<and> r \<le> 0x7E) \<or> (0xA1 \<le> r \<and> r \<noteq> 0xAD)
      else PrintRanges U r)"

definition IsControl :: "rune \<Rightarrow> bool" where
  "IsControl r = (0 \<le> r \<and> r \<le> 0xFF \<and> (r < 0x20 \<or> (0x7F \<le> r \<and> r \<le> 0x9F)))"

definition IsSpace :: "rune \<Rightarrow> bool" where
  "IsSpace r =
     ((0x09 \<le> r \<and> r \<le> 0x0D) \<or> r = 0x20 \<or> r = 0x85 \<or> r = 0xA0 \<or> r = 0x1680
      \<or> (0x2000 \<le> r \<and> r \<le> 0x200A) \<or> r = 0x2028 \<or> r = 0x2029 \<or> r = 0x202F
      \<or> r = 0x205F \<or> r = 0x3000)"

definition unicode_ToLower :: "unicode_tables \<Rightarrow> rune \<Rightarrow> rune" where
  "unicode_ToLower U r =
     (if r \<le> 0x7F then (if 0x41 \<le> r \<and> r \<le> 0x5A then r + 0x20 else r)
      else LowerCase U r)"

subsection \<open>Package strings\<close>

definition ToLower :: "unicode_tables \<Rightarrow> string \<Rightarrow> string" where
  "ToLower U s = Map (unicode_ToLower U) s"

text \<open>
  \<open>strings.TrimSpace\<close> returns the slice of \<open>s\<close> without its leading and trailing
  white-space runes.
\<close>

definition TrimSpace :: "string \<Rightarrow> string" where
  "TrimSpace s =
     concat (map snd (rev (dropWhile (\<lambda>c. IsSpace (fst c))
       (rev (dropWhile (\<lambda>c. IsSpace (fst c)) (chunks s))))))"

text \<open>\<open>strings.Trim\<close> and \<open>strings.TrimRight\<close> with a cutset of one ASCII byte.\<close>

definition Trim :: "string \<Rightarrow> char \<Rightarrow> string" where
  "Trim s c = rev (dropWhile (\<lambda>x. x = c) (rev (dropWhile (\<lambda>x. x = c) s)))"

definition TrimRight :: "string \<Rightarrow> char \<Rightarrow> string" where
  "TrimRight s c = rev (dropWhile (\<lambda>x. x = c) (rev s))"

definition HasPrefix :: "string \<Rightarrow> string \<Rightarrow> bool" where
  "HasPrefix s p = prefix p s"

definition TrimPrefix :: "string \<Rightarrow> string \<Rightarrow> string" where
  "TrimPrefix s p = (if HasPrefix s p then drop (length p) s else s)"

fun Contains :: "string \<Rightarrow> string \<Rightarrow> bool" where
  "Contains [] sub = (sub = [])"
| "Contains (c # cs) sub = (prefix sub (c # cs) \<or> Contains cs sub)"

text \<open>\<open>strings.Split(s, sep)\<close> with a separator of one byte, as the program calls it.\<close>

fun Split :: "string \<Rightarrow> char \<Rightarrow> string list" where
  "Split [] sep = [[]]"
| "Split (c # cs) sep =
     (if c = sep then [] # Split cs sep
      else (case Split cs sep of [] \<Rightarrow> [[c]] | l # ls \<Rightarrow> (c # l) # ls))"

fun Join :: "string list \<Rightarrow> string \<Rightarrow> string" where
  "Join [] sep = []"
| "Join [x] sep = x"
| "Join (x # y # ys) sep = x @ sep @ Join (y # ys) sep"

text \<open>\<open>fmt.Sprintf("%d", n)\<close>: the decimal digits of an integer, with its sign.\<close>

fun digits :: "nat \<Rightarrow> string" where
  "digits n = (if n < 10 then [char_of (48 + n)] else digits (n div 10) @ [char_of (48 + n mod 10)])"

declare digits.simps [simp del]

definition fmt_d :: "int \<Rightarrow> string" where
  "fmt_d n = (if n < 0 then CHR ''-'' # digits (nat (- n)) else digits (nat n))"

section \<open>Article assembler: summary (content_service.go, generateSummary)\<close>

definition generateSummary :: "string \<Rightarrow> string" where
  "generateSummary content =
     (let content = ReplaceAll content [CHR 0x0A] '' ''
      in if length content > 300 then take 300 content @ ''...'' else content)"

section \<open>Content filter (deepseek.go, FilterContent)\<close>

definition FilterContent :: "unicode_tables \<Rightarrow> string \<Rightarrow> string" where
  "FilterContent U content =
     (let content = concat (map (\<lambda>r. if IsPrint U r \<or> r = 0x0A \<or> r = 0x09
                                       then EncodeRune r else EncodeRune 0x20) (runes content));
          content = (if \<not> ValidString content then ToValidUTF8 content else content)
      in Map (\<lambda>r. if IsControl r \<and> r \<noteq> 0x0A \<and> r \<noteq> 0x09 then - 1 else r) content)"

section \<open>Article assembler: title and body (content_service.go, parseArticle)\<close>

text \<open>The default title, the UTF-8 bytes of the six Chinese characters of the source.\<close>

definition default_title :: string where
  "default_title =
     [CHR 0xE5, CHR 0x85, CHR 0xBB, CHR 0xE7, CHR 0x94, CHR 0x9F, CHR 0xE5, CHR 0x81, CHR 0xA5,
      CHR 0xE5, CHR 0xBA, CHR 0xB7, CHR 0xE6, CHR 0x96, CHR 0x87, CHR 0xE7, CHR 0xAB, CHR 0xA0]"

text \<open>
  The loop over the lines, with its three variables \<open>title\<close>, \<open>contentLines\<close> and
  \<open>contentStarted\<close>.
\<close>

fun parseLines :: "string list \<Rightarrow> string \<Rightarrow> string list \<Rightarrow> bool \<Rightarrow> string \<times> string list" where
  "parseLines [] title contentLines contentStarted = (title, contentLines)"
| "parseLines (raw # rest) title contentLines contentStarted =
     (let line = TrimSpace raw in
      if line = [] then
        (if contentStarted then parseLines rest title (contentLines @ [[]]) contentStarted
         else parseLines rest title contentLines contentStarted)
      else if HasPrefix line ''# '' then
        parseLines rest (TrimPrefix line ''# '') contentLines True
      else if title = [] \<and> line \<noteq> [] then
        parseLines rest line contentLines True
      else parseLines rest title (contentLines @ [raw]) True)"

definition parseArticle :: "unicode_tables \<Rightarrow> string \<Rightarrow> string \<times> string" where
  "parseArticle U content =
     (let content = (if \<not> ValidString content then ToValidUTF8 content else content);
          lines = Split content (CHR 0x0A);
          (title, contentLines) = parseLines lines [] [] False;
          title = (if title = [] then default_title else title);
          title = Map (\<lambda>r. if IsPrint U r \<and> \<not> IsControl r then r else - 1) title;
          title = (if length title > 100 then take 100 title else title)
      in (title, Join contentLines [CHR 0x0A]))"

section \<open>Article assembler: slug (content_service.go, generateSlug)\<close>

lemma length_ReplaceAll_le:
  "length new \<le> length old \<Longrightarrow> length (ReplaceAll s old new) \<le> length s"
proof (induction s old new rule: ReplaceAll.induct)
  case (1 old new)
  then show ?case by simp
next
  case (2 c cs old new)
  show ?case
  proof (cases "old \<noteq> [] \<and> prefix old (c # cs)")
    case True
    then have le: "length old \<le> length (c # cs)" using prefix_length_le by blast
    have "length (ReplaceAll (drop (length old) (c # cs)) old new) \<le> length (c # cs) - length old"
      using 2(1) [OF True 2(3)] by simp
    then have "length new + length (ReplaceAll (drop (length old) (c # cs)) old new) \<le> length (c # cs)"
      using le 2(3) by linarith
    then show ?thesis using True by simp
  next
    case False
    then show ?thesis using 2(2) [OF False 2(3)] by auto
  qed
qed

lemma length_ReplaceAll_less:
  "Contains s old \<Longrightarrow> old \<noteq> [] \<Longrightarrow> length new < length old \<Longrightarrow>
   length (ReplaceAll s old new) < length s"
proof (induction s old new rule: ReplaceAll.induct)
  case (1 old new)
  then show ?case by simp
next
  case (2 c cs old new)
  show ?case
  proof (cases "prefix old (c # cs)")
    case True
    then have le: "length old \<le> length (c # cs)" using prefix_length_le by blast
    have "length (ReplaceAll (drop (length old) (c # cs)) old new) \<le> length (drop (length old) (c # cs))"
      using 2(5) by (intro length_ReplaceAll_le) simp
    then have "length new + length (ReplaceAll (drop (length old) (c # cs)) old new) < length (c # cs)"
      using le 2(5) by simp
    then show ?thesis using True 2(4) by simp
  next
    case False
    then have "Contains cs old" using 2(3) by simp
    then have "length (ReplaceAll cs old new) < length cs"
      using 2(2) False 2(4,5) by simp
    then show ?thesis using False by simp
  qed
qed

text \<open>The loop \<open>for strings.Contains(slug, "--") { slug = strings.ReplaceAll(slug, "--", "-") }\<close>.\<close>

function collapse_hyphens :: "string \<Rightarrow> string" where
  "collapse_hyphens slug =
     (if Contains slug ''--'' then collapse_hyphens (ReplaceAll slug ''--'' ''-'') else slug)"
  by pat_completeness auto
termination
  by (relation "measure length") (simp_all add: length_ReplaceAll_less)

declare collapse_hyphens.simps [simp del]

text \<open>\<open>now\<close> is the reading of \<open>time.Now().Unix()\<close>.\<close>

definition generateSlug :: "unicode_tables \<Rightarrow> int \<Rightarrow> string \<Rightarrow> string" where
  "generateSlug U now title =
     (let title = (if \<not> ValidString title then ToValidUTF8 title else title);
          slug = ToLower U title;
          slug = Map (\<lambda>r. if r < 128 then r else - 1) slug;
          slug = ReplaceAll slug '' '' ''-'';
          slug = Map (\<lambda>r. if (0x61 \<le> r \<and> r \<le> 0x7A) \<or> (0x30 \<le> r \<and> r \<le> 0x39) \<or> r = 0x2D
                          then r else - 1) slug;
          slug = collapse_hyphens slug;
          slug = Trim slug (CHR ''-'');
          slug = (if slug = [] then ''article-'' @ fmt_d now else slug)
      in if length slug > 100 then TrimRight (take 100 slug) (CHR ''-'') else slug)"

section \<open>Article assembler: cleaning before storage (content_service.go, GenerateArticle)\<close>

text \<open>The function literal passed to \<open>strings.Map\<close> for the title, the content and the summary.\<close>

definition clean_rune :: "rune \<Rightarrow> rune" where
  "clean_rune r = (if r < 32 \<or> (r > 126 \<and> r < 256) then - 1 else r)"

text \<open>
  The claim about the cleaning step speaks of the printable Latin-1 range, which is
  \<open>latin1_printable\<close>; what the function literal keeps is \<open>kept_rune\<close>.
\<close>

definition kept_rune :: "rune \<Rightarrow> bool" where
  "kept_rune r = ((32 \<le> r \<and> r \<le> 126) \<or> 256 \<le> r)"

definition latin1_printable :: "rune \<Rightarrow> bool" where
  "latin1_printable r = ((0x20 \<le> r \<and> r \<le> 0x7E) \<or> (0xA0 \<le> r \<and> r \<le> 0xFF))"


section \<open>Errors\<close>

text \<open>
  A Go error is modelled by its message: \<open>fmt.Errorf("p: %v", err)\<close> (and \<open>%w\<close>) is the
  prefix \<open>p: \<close> followed by the message of \<open>err\<close>. The prefixes are the UTF-8 bytes of
  the Chinese texts of the source.
\<close>

type_synonym error = string

definition msg_task_not_exist :: string where
  "msg_task_not_exist =
     [CHR 0xE4, CHR 0xBB, CHR 0xBB, CHR 0xE5, CHR 0x8A, CHR 0xA1, CHR 0xE4, CHR 0xB8,
      CHR 0x8D, CHR 0xE5, CHR 0xAD, CHR 0x98, CHR 0xE5, CHR 0x9C, CHR 0xA8]"

definition msg_generate_content_failed :: string where
  "msg_generate_content_failed =
     [CHR 0xE7, CHR 0x94, CHR 0x9F, CHR 0xE6, CHR 0x88, CHR 0x90, CHR 0xE5, CHR 0x86,
      CHR 0x85, CHR 0xE5, CHR 0xAE, CHR 0xB9, CHR 0xE5, CHR 0xA4, CHR 0xB1, CHR 0xE8,
      CHR 0xB4, CHR 0xA5, CHR 0x3A, CHR 0x20]"

definition msg_generate_article_failed :: string where
  "msg_generate_article_failed =
     [CHR 0xE7, CHR 0x94, CHR 0x9F, CHR 0xE6, CHR 0x88, CHR 0x90, CHR 0xE6, CHR 0x96,
      CHR 0x87, CHR 0xE7, CHR 0xAB, CHR 0xA0, CHR 0xE5, CHR 0xA4, CHR 0xB1, CHR 0xE8,
      CHR 0xB4, CHR 0xA5, CHR 0x3A, CHR 0x20]"

definition msg_get_keyword_failed :: string where
  "msg_get_keyword_failed =
     [CHR 0xE8, CHR 0x8E, CHR 0xB7, CHR 0xE5, CHR 0x8F, CHR 0x96, CHR 0xE5, CHR 0x85,
      CHR 0xB3, CHR 0xE9, CHR 0x94, CHR 0xAE, CHR 0xE8, CHR 0xAF, CHR 0x8D, CHR 0xE5,
      CHR 0xA4, CHR 0xB1, CHR 0xE8, CHR 0xB4, CHR 0xA5, CHR 0x3A, CHR 0x20]"

definition msg_request_failed :: string where
  "msg_request_failed =
     [CHR 0xE8, CHR 0xAF, CHR 0xB7, CHR 0xE6, CHR 0xB1, CHR 0x82, CHR 0xE5, CHR 0xA4,
      CHR 0xB1, CHR 0xE8, CHR 0xB4, CHR 0xA5, CHR 0x3A, CHR 0x20]"

definition msg_read_body_failed :: string where
  "msg_read_body_failed =
     [CHR 0xE8, CHR 0xAF, CHR 0xBB, CHR 0xE5, CHR 0x8F, CHR 0x96, CHR 0xE5, CHR 0x93,
      CHR 0x8D, CHR 0xE5, CHR 0xBA, CHR 0x94, CHR 0xE4, CHR 0xBD, CHR 0x93, CHR 0xE5,
      CHR 0xA4, CHR 0xB1, CHR 0xE8, CHR 0xB4, CHR 0xA5, CHR 0x3A, CHR 0x20]"

definition msg_api_error :: string where
  "msg_api_error =
     [CHR 0x41, CHR 0x50, CHR 0x49, CHR 0xE9, CHR 0x94, CHR 0x99, CHR 0xE8, CHR 0xAF,
      CHR 0xAF, CHR 0x3A, CHR 0x20]"

definition msg_parse_response_failed :: string where
  "msg_parse_response_failed =
     [CHR 0xE8, CHR 0xA7, CHR 0xA3, CHR 0xE6, CHR 0x9E, CHR 0x90, CHR 0xE5, CHR 0x93,
      CHR 0x8D, CHR 0xE5, CHR 0xBA, CHR 0x94, CHR 0xE5, CHR 0xA4, CHR 0xB1, CHR 0xE8,
      CHR 0xB4, CHR 0xA5, CHR 0x3A, CHR 0x20]"

definition msg_no_content :: string where
  "msg_no_content =
     [CHR 0xE6, CHR 0xB2, CHR 0xA1, CHR 0xE6, CHR 0x9C, CHR 0x89, CHR 0xE5, CHR 0x86,
      CHR 0x85, CHR 0xE5, CHR 0xAE, CHR 0xB9, CHR 0xE8, CHR 0xBF, CHR 0x94, CHR 0xE5,
      CHR 0x9B, CHR 0x9E]"

definition msg_create_task_failed :: string where
  "msg_create_task_failed =
     [CHR 0xE5, CHR 0x88, CHR 0x9B, CHR 0xE5, CHR 0xBB, CHR 0xBA, CHR 0xE7, CHR 0x94,
      CHR 0x9F, CHR 0xE6, CHR 0x88, CHR 0x90, CHR 0xE4, CHR 0xBB, CHR 0xBB, CHR 0xE5,
      CHR 0x8A, CHR 0xA1, CHR 0xE5, CHR 0xA4, CHR 0xB1, CHR 0xE8, CHR 0xB4, CHR 0xA5,
      CHR 0x3A, CHR 0x20]"




definition msg_check_exists_failed :: string where
  "msg_check_exists_failed =
     [CHR 0xE6, CHR 0xA3, CHR 0x80, CHR 0xE6, CHR 0x9F, CHR 0xA5, CHR 0xE4, CHR 0xBB,
      CHR 0xBB, CHR 0xE5, CHR 0x8A, CHR 0xA1, CHR 0xE6, CHR 0x98, CHR 0xAF, CHR 0xE5,
      CHR 0x90, CHR 0xA6, CHR 0xE5, CHR 0xAD, CHR 0x98, CHR 0xE5, CHR 0x9C, CHR 0xA8,
      CHR 0xE5, CHR 0xA4, CHR 0xB1, CHR 0xE8, CHR 0xB4, CHR 0xA5, CHR 0x3A, CHR 0x20]"

definition msg_get_task_failed :: string where
  "msg_get_task_failed =
     [CHR 0xE8, CHR 0x8E, CHR 0xB7, CHR 0xE5, CHR 0x8F, CHR 0x96, CHR 0xE4, CHR 0xBB,
      CHR 0xBB, CHR 0xE5, CHR 0x8A, CHR 0xA1, CHR 0xE4, CHR 0xBF, CHR 0xA1, CHR 0xE6,
      CHR 0x81, CHR 0xAF, CHR 0xE5, CHR 0xA4, CHR 0xB1, CHR 0xE8, CHR 0xB4, CHR 0xA5,
      CHR 0x3A, CHR 0x20]"

definition msg_parse_task_failed :: string where
  "msg_parse_task_failed =
     [CHR 0xE8, CHR 0xA7, CHR 0xA3, CHR 0xE6, CHR 0x9E, CHR 0x90, CHR 0xE4, CHR 0xBB,
      CHR 0xBB, CHR 0xE5, CHR 0x8A, CHR 0xA1, CHR 0xE4, CHR 0xBF, CHR 0xA1, CHR 0xE6,
      CHR 0x81, CHR 0xAF, CHR 0xE5, CHR 0xA4, CHR 0xB1, CHR 0xE8, CHR 0xB4, CHR 0xA5,
      CHR 0x3A, CHR 0x20]"

definition msg_marshal_request_failed :: string where
  "msg_marshal_request_failed =
     [CHR 0xE5, CHR 0xBA, CHR 0x8F, CHR 0xE5, CHR 0x88, CHR 0x97, CHR 0xE5, CHR 0x8C,
      CHR 0x96, CHR 0xE8, CHR 0xAF, CHR 0xB7, CHR 0xE6, CHR 0xB1, CHR 0x82, CHR 0xE4,
      CHR 0xBD, CHR 0x93, CHR 0xE5, CHR 0xA4, CHR 0xB1, CHR 0xE8, CHR 0xB4, CHR 0xA5,
      CHR 0x3A, CHR 0x20]"

definition msg_new_request_failed :: string where
  "msg_new_request_failed =
     [CHR 0xE5, CHR 0x88, CHR 0x9B, CHR 0xE5, CHR 0xBB, CHR 0xBA, CHR 0xE8, CHR 0xAF,
      CHR 0xB7, CHR 0xE6, CHR 0xB1, CHR 0x82, CHR 0xE5, CHR 0xA4, CHR 0xB1, CHR 0xE8,
      CHR 0xB4, CHR 0xA5, CHR 0x3A, CHR 0x20]"

definition msg_create_article_failed :: string where
  "msg_create_article_failed =
     [CHR 0xE5, CHR 0x88, CHR 0x9B, CHR 0xE5, CHR 0xBB, CHR 0xBA, CHR 0xE6, CHR 0x96,
      CHR 0x87, CHR 0xE7, CHR 0xAB, CHR 0xA0, CHR 0xE5, CHR 0xA4, CHR 0xB1, CHR 0xE8,
      CHR 0xB4, CHR 0xA5, CHR 0x3A, CHR 0x20]"

definition msg_append_keyword_failed :: string where
  "msg_append_keyword_failed =
     [CHR 0xE5, CHR 0x85, CHR 0xB3, CHR 0xE8, CHR 0x81, CHR 0x94, CHR 0xE5, CHR 0x85,
      CHR 0xB3, CHR 0xE9, CHR 0x94, CHR 0xAE, CHR 0xE8, CHR 0xAF, CHR 0x8D, CHR 0xE5,
      CHR 0xA4, CHR 0xB1, CHR 0xE8, CHR 0xB4, CHR 0xA5, CHR 0x3A, CHR 0x20]"

definition msg_find_categories_failed :: string where
  "msg_find_categories_failed =
     [CHR 0xE6, CHR 0x9F, CHR 0xA5, CHR 0xE8, CHR 0xAF, CHR 0xA2, CHR 0xE5, CHR 0x88,
      CHR 0x86, CHR 0xE7, CHR 0xB1, CHR 0xBB, CHR 0xE5, CHR 0xA4, CHR 0xB1, CHR 0xE8,
      CHR 0xB4, CHR 0xA5, CHR 0x3A, CHR 0x20]"

definition msg_append_categories_failed :: string where
  "msg_append_categories_failed =
     [CHR 0xE5, CHR 0x85, CHR 0xB3, CHR 0xE8, CHR 0x81, CHR 0x94, CHR 0xE5, CHR 0x88,
      CHR 0x86, CHR 0xE7, CHR 0xB1, CHR 0xBB, CHR 0xE5, CHR 0xA4, CHR 0xB1, CHR 0xE8,
      CHR 0xB4, CHR 0xA5, CHR 0x3A, CHR 0x20]"

definition msg_update_task_failed :: string where
  "msg_update_task_failed =
     [CHR 0xE6, CHR 0x9B, CHR 0xB4, CHR 0xE6, CHR 0x96, CHR 0xB0, CHR 0xE4, CHR 0xBB,
      CHR 0xBB, CHR 0xE5, CHR 0x8A, CHR 0xA1, CHR 0xE7, CHR 0x8A, CHR 0xB6, CHR 0xE6,
      CHR 0x80, CHR 0x81, CHR 0xE5, CHR 0xA4, CHR 0xB1, CHR 0xE8, CHR 0xB4, CHR 0xA5,
      CHR 0x3A, CHR 0x20]"

definition msg_commit_failed :: string where
  "msg_commit_failed =
     [CHR 0xE6, CHR 0x8F, CHR 0x90, CHR 0xE4, CHR 0xBA, CHR 0xA4, CHR 0xE4, CHR 0xBA,
      CHR 0x8B, CHR 0xE5, CHR 0x8A, CHR 0xA1, CHR 0xE5, CHR 0xA4, CHR 0xB1, CHR 0xE8,
      CHR 0xB4, CHR 0xA5, CHR 0x3A, CHR 0x20]"

section \<open>Provider clients (pkg/ai/deepseek.go and ollama.go, GenerateContent)\<close>

text \<open>
  What one HTTP call does is an input of the model: building the request may fail, the
  transport may fail (a timeout of the context is such a failure), reading the body may
  fail, or a response with a status code and a body arrives. \<open>json.Unmarshal\<close> of the body
  is a parameter; for DeepSeek it yields the contents of the \<open>choices\<close>, for Ollama the
  \<open>response\<close> field.
\<close>

datatype http_outcome =
    MarshalFails error
  | NewRequestFails error
  | DoFails error
  | ReadFails nat error
  | Responds nat string

definition DeepSeek_GenerateContent ::
  "(string \<Rightarrow> error + string list) \<Rightarrow> http_outcome \<Rightarrow> error + string" where
  "DeepSeek_GenerateContent unmarshal h =
     (case h of
        MarshalFails e \<Rightarrow> Inl (msg_marshal_request_failed @ e)
      | NewRequestFails e \<Rightarrow> Inl (msg_new_request_failed @ e)
      | DoFails e \<Rightarrow> Inl (msg_request_failed @ e)
      | ReadFails st e \<Rightarrow> Inl (msg_read_body_failed @ e)
      | Responds st body \<Rightarrow>
          if st \<noteq> 200 then Inl (msg_api_error @ body)
          else (case unmarshal body of
                  Inl e \<Rightarrow> Inl (msg_parse_response_failed @ e)
                | Inr choices \<Rightarrow>
                    (case choices of [] \<Rightarrow> Inl msg_no_content | c # cs \<Rightarrow> Inr c)))"

definition Ollama_GenerateContent ::
  "(string \<Rightarrow> error + string) \<Rightarrow> http_outcome \<Rightarrow> error + string" where
  "Ollama_GenerateContent unmarshal h =
     (case h of
        MarshalFails e \<Rightarrow> Inl (msg_marshal_request_failed @ e)
      | NewRequestFails e \<Rightarrow> Inl (msg_new_request_failed @ e)
      | DoFails e \<Rightarrow> Inl (msg_request_failed @ e)
      | ReadFails st e \<Rightarrow> Inl (msg_read_body_failed @ e)
      | Responds st body \<Rightarrow>
          if st \<noteq> 200 then Inl (msg_api_error @ body)
          else (case unmarshal body of
                  Inl e \<Rightarrow> Inl (msg_parse_response_failed @ e)
                | Inr response \<Rightarrow> Inr response))"

section \<open>Queue service: tasks (queue_service.go)\<close>

datatype TaskStatus = TaskStatusPending | TaskStatusRunning | TaskStatusCompleted | TaskStatusFailed

record GenerationTask =
  ID :: string
  KeywordID :: nat
  CategoryIDs :: "nat list"
  Status :: TaskStatus
  Error :: string
  CreatedAt :: int
  UpdatedAt :: int
  UserID :: nat

section \<open>Content service (content_service.go, GenerateArticle)\<close>

record Keyword =
  KwID :: nat
  Word :: string

record Article =
  ArticleID :: nat
  Title :: string
  Slug :: string
  Content :: string
  Summary :: string
  MetaTitle :: string
  MetaDesc :: string
  ArticleStatus :: string
  ArticleUserID :: "nat option"

datatype provider = DeepSeek | Ollama

text \<open>
  The environment of one call of \<open>GenerateArticle\<close>: the configuration, what the two
  providers answer to a call with a given timeout (in seconds) and prompt, and which
  database operations fail. \<open>render_prompt\<close> is \<open>fmt.Sprintf(PromptTemplate, \<dots>)\<close> with the
  configured lengths.
\<close>

record gen_env =
  render_prompt :: "string \<Rightarrow> string"
  ai_timeout :: int
  tables :: unicode_tables
  unix_now :: int
  db_create_task :: "error option"
  deepseek_http :: "int \<Rightarrow> string \<Rightarrow> http_outcome"
  deepseek_unmarshal :: "string \<Rightarrow> error + string list"
  ollama_http :: "int \<Rightarrow> string \<Rightarrow> http_outcome"
  ollama_unmarshal :: "string \<Rightarrow> error + string"
  new_article_id :: nat
  tx_create_article :: "error option"
  tx_append_keyword :: "error option"
  tx_find_categories :: "error option"
  tx_append_categories :: "error option"
  tx_update_task :: "error option"
  tx_commit :: "error option"

text \<open>The calls to the outside, in the order the code makes them.\<close>

datatype event =
    DbCreateTask string
  | ProviderCall provider int string
  | DbUpdateTask "(string \<times> string) list"
  | TxBegin
  | TxCreateArticle Article
  | TxAppendKeyword nat
  | TxFindCategories "nat list"
  | TxAppendCategories "nat list"
  | TxUpdateTask
  | TxRollback
  | TxCommit
  | SetStatus GenerationTask
  | DbSaveArticle Article

definition generateWithDeepSeek :: "gen_env \<Rightarrow> string \<Rightarrow> error + string" where
  "generateWithDeepSeek env prompt =
     DeepSeek_GenerateContent (deepseek_unmarshal env) (deepseek_http env (ai_timeout env) prompt)"

definition generateWithOllama :: "gen_env \<Rightarrow> string \<Rightarrow> error + string" where
  "generateWithOllama env prompt =
     Ollama_GenerateContent (ollama_unmarshal env) (ollama_http env (ai_timeout env) prompt)"

text \<open>The pure part of \<open>GenerateArticle\<close>: from the generated text to the article.\<close>

definition assemble :: "unicode_tables \<Rightarrow> int \<Rightarrow> string \<Rightarrow> Article" where
  "assemble U now content =
     (let content = FilterContent U content;
          (title, content) = parseArticle U content;
          summary = generateSummary content;
          slug = generateSlug U now title;
          title = Map clean_rune title;
          content = Map clean_rune content;
          summary = Map clean_rune summary
      in \<lparr>ArticleID = 0, Title = title, Slug = slug, Content = content, Summary = summary,
          MetaTitle = title, MetaDesc = take (min (length summary) 160) summary,
          ArticleStatus = ''draft'', ArticleUserID = None\<rparr>)"

text \<open>The transaction that stores the article and its links.\<close>

definition persist :: "gen_env \<Rightarrow> Keyword \<Rightarrow> nat list \<Rightarrow> Article \<Rightarrow> event list \<times> (error + Article)" where
  "persist env keyword categoryIDs article =
     (case tx_create_article env of
        Some e \<Rightarrow> ([TxBegin, TxCreateArticle article, TxRollback], Inl (msg_create_article_failed @ e))
      | None \<Rightarrow>
     let article = article\<lparr>ArticleID := new_article_id env\<rparr>;
         evs = [TxBegin, TxCreateArticle article, TxAppendKeyword (KwID keyword)] in
     (case tx_append_keyword env of
        Some e \<Rightarrow> (evs @ [TxRollback], Inl (msg_append_keyword_failed @ e))
      | None \<Rightarrow>
     (case (if categoryIDs \<noteq> []
            then (case tx_find_categories env of
                    Some e \<Rightarrow> ([TxFindCategories categoryIDs, TxRollback],
                               Some (msg_find_categories_failed @ e))
                  | None \<Rightarrow>
                 (case tx_append_categories env of
                    Some e \<Rightarrow> ([TxFindCategories categoryIDs, TxAppendCategories categoryIDs,
                                TxRollback], Some (msg_append_categories_failed @ e))
                  | None \<Rightarrow> ([TxFindCategories categoryIDs, TxAppendCategories categoryIDs], None)))
            else ([], None)) of
        (cevs, Some e) \<Rightarrow> (evs @ cevs, Inl e)
      | (cevs, None) \<Rightarrow>
     (case tx_update_task env of
        Some e \<Rightarrow> (evs @ cevs @ [TxUpdateTask, TxRollback], Inl (msg_update_task_failed @ e))
      | None \<Rightarrow>
     (case tx_commit env of
        Some e \<Rightarrow> (evs @ cevs @ [TxUpdateTask, TxCommit], Inl (msg_commit_failed @ e))
      | None \<Rightarrow> (evs @ cevs @ [TxUpdateTask, TxCommit], Inr article))))))"

definition GenerateArticle :: "gen_env \<Rightarrow> Keyword \<Rightarrow> nat list \<Rightarrow> event list \<times> (error + Article)" where
  "GenerateArticle env keyword categoryIDs =
     (let prompt = render_prompt env (Word keyword) in
      case db_create_task env of
        Some e \<Rightarrow> ([DbCreateTask prompt], Inl (msg_create_task_failed @ e))
      | None \<Rightarrow>
     (case generateWithDeepSeek env prompt of
        Inl err \<Rightarrow>
          (case generateWithOllama env prompt of
             Inl err2 \<Rightarrow>
               ([DbCreateTask prompt, ProviderCall DeepSeek (ai_timeout env) prompt,
                 DbUpdateTask [(''error_message'', err)],
                 ProviderCall Ollama (ai_timeout env) prompt,
                 DbUpdateTask [(''status'', ''failed''), (''error_message'', err2)]],
                Inl (msg_generate_content_failed @ err2))
           | Inr content \<Rightarrow>
               (let (evs, res) = persist env keyword categoryIDs
                                   (assemble (tables env) (unix_now env) content)
                in ([DbCreateTask prompt, ProviderCall DeepSeek (ai_timeout env) prompt,
                     DbUpdateTask [(''error_message'', err)],
                     ProviderCall Ollama (ai_timeout env) prompt,
                     DbUpdateTask [(''model_used'', ''ollama'')]] @ evs, res)))
      | Inr content \<Rightarrow>
          (let (evs, res) = persist env keyword categoryIDs
                              (assemble (tables env) (unix_now env) content)
           in ([DbCreateTask prompt, ProviderCall DeepSeek (ai_timeout env) prompt,
                DbUpdateTask [(''model_used'', ''deepseek'')]] @ evs, res))))"

section \<open>Queue service: the store and the operations (queue_service.go)\<close>

text \<open>
  The Redis store: the list \<open>article:queue\<close>, the set \<open>article:set\<close> and the keys
  \<open>task:<id>\<close>. A stored value is the JSON text of a task; the model keeps the task
  itself, and \<open>Malformed\<close> stands for a text that \<open>json.Unmarshal\<close> rejects. A key that
  has expired is a key without a value. \<open>trace\<close> lists the calls to the outside.
\<close>

datatype payload = Payload GenerationTask | Malformed string

record world =
  queue :: "payload list"
  members :: "string set"
  kv :: "string \<Rightarrow> payload option"
  trace :: "event list"

text \<open>
  \<open>AddTask\<close>. The environment holds the two readings of the clock, and says whether
  \<open>json.Marshal\<close> and \<open>pipe.Exec\<close> fail. The pipeline is not a transaction: when
  \<open>Exec\<close> returns an error, the store may still have applied \<open>RPush\<close>, \<open>SAdd\<close>, both
  or neither, which \<open>rpush_applied\<close> and \<open>sadd_applied\<close> say. When \<open>Exec\<close> returns no
  error both commands have been applied.
\<close>

record add_env =
  created_now :: int
  updated_now :: int
  marshal_error :: "error option"
  exec_error :: "error option"
  rpush_applied :: bool
  sadd_applied :: bool


text \<open>\<open>GetTask\<close>; the two errors of the environment are those of \<open>SIsMember\<close> and \<open>Get\<close>.\<close>

record get_env =
  sismember_error :: "error option"
  get_error :: "error option"

definition GetTask :: "get_env \<Rightarrow> world \<Rightarrow> string \<Rightarrow> error + GenerationTask" where
  "GetTask env w taskID =
     (case sismember_error env of
        Some e \<Rightarrow> Inl (msg_check_exists_failed @ e)
      | None \<Rightarrow>
     if taskID \<notin> members w then Inl msg_task_not_exist
     else (case get_error env of
        Some e \<Rightarrow> Inl (msg_get_task_failed @ e)
      | None \<Rightarrow>
     (case kv w (''task:'' @ taskID) of
        None \<Rightarrow> Inl msg_task_not_exist
      | Some (Malformed e) \<Rightarrow> Inl (msg_parse_task_failed @ e)
      | Some (Payload task) \<Rightarrow> Inr task)))"

text \<open>
  \<open>updateTaskStatus\<close>: the task is written to its key, with a life of 24 hours. The
  errors of \<open>json.Marshal\<close> and of \<open>Set\<close> are dropped by the code, so the call is made
  (it is in the trace) whether or not the store applies it; \<open>applied\<close> says which.
\<close>

definition updateTaskStatus :: "bool \<Rightarrow> GenerationTask \<Rightarrow> world \<Rightarrow> world" where
  "updateTaskStatus applied task w =
     w\<lparr>kv := (if applied then (kv w)(''task:'' @ ID task \<mapsto> Payload task) else kv w),
       trace := trace w @ [SetStatus task]\<rparr>"

text \<open>
  One turn of the loop of \<open>ProcessTasks\<close>. What the outside does during the turn is the
  \<open>iteration\<close>: whether \<open>BLPop\<close> fails, the two readings of the clock, whether the
  store applies the first and the second write of the status, the answer of the database
  for a keyword id, and the environment of \<open>GenerateArticle\<close>. \<open>BLPop\<close> on an empty
  list blocks; the turn then leaves the world as it is.
\<close>

record iteration =
  blpop_error :: "error option"
  set_running_applied :: bool
  set_final_applied :: bool
  now_running :: int
  now_completed :: int
  db_first :: "nat \<Rightarrow> error + Keyword"
  gen :: gen_env

definition processTask :: "iteration \<Rightarrow> world \<Rightarrow> world" where
  "processTask it w =
     (case blpop_error it of
        Some e \<Rightarrow> w
      | None \<Rightarrow>
     (case queue w of
        [] \<Rightarrow> w
      | p # rest \<Rightarrow>
     (case p of
        Malformed e \<Rightarrow> w\<lparr>queue := rest\<rparr>
      | Payload task0 \<Rightarrow>
     let task = task0\<lparr>Status := TaskStatusRunning, UpdatedAt := now_running it\<rparr>;
         w = updateTaskStatus (set_running_applied it) task (w\<lparr>queue := rest\<rparr>) in
     (case db_first it (KeywordID task) of
        Inl err \<Rightarrow>
          updateTaskStatus (set_final_applied it)
            (task\<lparr>Status := TaskStatusFailed, Error := msg_get_keyword_failed @ err\<rparr>) w
      | Inr keyword \<Rightarrow>
     let (evs, res) = GenerateArticle (gen it) keyword (CategoryIDs task);
         w = w\<lparr>trace := trace w @ evs\<rparr> in
     (case res of
        Inl err \<Rightarrow>
          updateTaskStatus (set_final_applied it)
            (task\<lparr>Status := TaskStatusFailed, Error := msg_generate_article_failed @ err\<rparr>) w
      | Inr article \<Rightarrow>
     let task = task\<lparr>Status := TaskStatusCompleted, UpdatedAt := now_completed it\<rparr>;
         w = updateTaskStatus (set_final_applied it) task w in
     if UserID task > 0
     then w\<lparr>trace := trace w @ [DbSaveArticle (article\<lparr>ArticleUserID := Some (UserID task)\<rparr>)]\<rparr>
     else w)))))"

text \<open>
  The loop runs until the context is cancelled; a run is given by the turns it makes
  before that.
\<close>

fun ProcessTasks :: "iteration list \<Rightarrow> world \<Rightarrow> world" where
  "ProcessTasks [] w = w"
| "ProcessTasks (it # its) w = ProcessTasks its (processTask it w)"

text \<open>
  \<open>BatchAddTasks\<close>. \<open>nanos i\<close> is the reading of \<open>time.Now().UnixNano()\<close> that makes
  the id of the \<open>i\<close>-th task, and \<open>env i\<close> the environment of the \<open>i\<close>-th call of
  \<open>AddTask\<close>. The task is built with the zero value in the fields the code does not
  set; \<open>AddTask\<close> overwrites the status before anything reads it.
\<close>

definition task_id :: "nat \<Rightarrow> int \<Rightarrow> string" where
  "task_id keywordID nanos = ''task_'' @ digits keywordID @ ''_'' @ fmt_d nanos"



section \<open>What the claims say about the queue\<close>



definition new_task :: "(nat \<Rightarrow> int) \<Rightarrow> (nat \<Rightarrow> add_env) \<Rightarrow> nat list \<Rightarrow> nat \<Rightarrow> nat \<times> nat \<Rightarrow> GenerationTask" where
  "new_task nanos env categoryIDs userID p =
     \<lparr>ID = task_id (snd p) (nanos (fst p)), KeywordID = snd p, CategoryIDs = categoryIDs,
      Status = TaskStatusPending, Error = [], CreatedAt = created_now (env (fst p)),
      UpdatedAt = updated_now (env (fst p)), UserID = userID\<rparr>"

definition batch_tasks ::
  "(nat \<Rightarrow> int) \<Rightarrow> (nat \<Rightarrow> add_env) \<Rightarrow> nat list \<Rightarrow> nat \<Rightarrow> nat \<Rightarrow> nat list \<Rightarrow> GenerationTask list" where
  "batch_tasks nanos env categoryIDs userID i keywordIDs =
     map (new_task nanos env categoryIDs userID) (zip [i..<i + length keywordIDs] keywordIDs)"

definition enqueue_all :: "GenerationTask list \<Rightarrow> world \<Rightarrow> world" where
  "enqueue_all ts w = w\<lparr>queue := queue w @ map Payload ts, members := members w \<union> set (map ID ts)\<rparr>"

definition empty_world :: world where
  "empty_world = \<lparr>queue = [], members = {}, kv = (\<lambda>k. None), trace = []\<rparr>"




definition no_get_errors :: get_env where
  "no_get_errors = \<lparr>sismember_error = None, get_error = None\<rparr>"

section \<open>What the claims say about the slug\<close>

text \<open>
  \<open>matches_slug\<close> is the automaton of \<open>^[a-z0-9]+(-[a-z0-9]+)*$\<close>: its state says
  whether the last byte read was a letter or digit. \<open>matches_fallback\<close> is
  \<open>article-<digits>\<close>. \<open>slug_core\<close> and \<open>truncate_slug\<close> name the two halves of
  the computation the specification describes.
\<close>

definition alnum :: "char \<Rightarrow> bool" where
  "alnum c = ((0x61 \<le> (of_char c :: nat) \<and> (of_char c :: nat) \<le> 0x7A)
              \<or> (0x30 \<le> (of_char c :: nat) \<and> (of_char c :: nat) \<le> 0x39))"

fun slug_match :: "bool \<Rightarrow> string \<Rightarrow> bool" where
  "slug_match ok [] = ok"
| "slug_match ok (c # cs) =
     (if alnum c then slug_match True cs
      else if c = CHR ''-'' \<and> ok then slug_match False cs
      else False)"

definition matches_slug :: "string \<Rightarrow> bool" where
  "matches_slug s = slug_match False s"

definition is_digit :: "char \<Rightarrow> bool" where
  "is_digit c = (0x30 \<le> (of_char c :: nat) \<and> (of_char c :: nat) \<le> 0x39)"

definition matches_fallback :: "string \<Rightarrow> bool" where
  "matches_fallback s = (prefix ''article-'' s \<and> drop 8 s \<noteq> [] \<and> list_all is_digit (drop 8 s))"

definition slug_core :: "unicode_tables \<Rightarrow> string \<Rightarrow> string" where
  "slug_core U title =
     Trim (collapse_hyphens
       (Map (\<lambda>r. if (0x61 \<le> r \<and> r \<le> 0x7A) \<or> (0x30 \<le> r \<and> r \<le> 0x39) \<or> r = 0x2D then r else - 1)
         (ReplaceAll
           (Map (\<lambda>r. if r < 128 then r else - 1)
             (ToLower U (if \<not> ValidString title then ToValidUTF8 title else title)))
           '' '' ''-''))) (CHR ''-'')"

definition truncate_slug :: "string \<Rightarrow> string" where
  "truncate_slug slug = (if length slug > 100 then TrimRight (take 100 slug) (CHR ''-'') else slug)"

definition slug_shape :: "string \<Rightarrow> bool" where
  "slug_shape s = ((\<forall>c\<in>set s. alnum c \<or> c = CHR ''-'') \<and> \<not> sublist ''--'' s)"


text \<open>
  An excerpt of the Unicode tables, to run the functions on concrete inputs: the CJK unified
  ideographs U+4E00..U+9FFF and U+FFFD are printable, and no rune beyond ASCII has a lower
  case of its own.
\<close>

definition sample_tables :: unicode_tables where
  "sample_tables =
     \<lparr>PrintRanges = (\<lambda>r. (0x4E00 \<le> r \<and> r \<le> 0x9FFF) \<or> r = 0xFFFD), LowerCase = (\<lambda>r. r)\<rparr>"

section \<open>What the claims say about the title and the body\<close>

text \<open>
  A line is blank when \<open>TrimSpace\<close> leaves nothing of it, and a heading line when what
  \<open>TrimSpace\<close> leaves starts with \<open>"# "\<close>. \<open>first_heading_title\<close> is the title the
  specification promises; \<open>spec_title\<close> and \<open>spec_body\<close> say what the loop computes.
\<close>

definition is_blank :: "string \<Rightarrow> bool" where
  "is_blank raw = (TrimSpace raw = [])"

definition is_heading :: "string \<Rightarrow> bool" where
  "is_heading raw = HasPrefix (TrimSpace raw) ''# ''"

definition heading_title :: "string \<Rightarrow> string" where
  "heading_title raw = TrimPrefix (TrimSpace raw) ''# ''"

definition spec_title :: "string list \<Rightarrow> string" where
  "spec_title ls =
     (case filter is_heading ls of
        [] \<Rightarrow> (case filter (\<lambda>l. \<not> is_blank l) ls of [] \<Rightarrow> default_title | l # _ \<Rightarrow> TrimSpace l)
      | h # hs \<Rightarrow> heading_title (last (h # hs)))"

definition spec_body :: "string list \<Rightarrow> string list" where
  "spec_body ls =
     map (\<lambda>l. if is_blank l then [] else l)
       (filter (\<lambda>l. \<not> is_heading l) (tl (dropWhile is_blank ls)))"

definition clean_title :: "unicode_tables \<Rightarrow> string \<Rightarrow> string" where
  "clean_title U title =
     (let t = Map (\<lambda>r. if IsPrint U r \<and> \<not> IsControl r then r else - 1) title
      in if length t > 100 then take 100 t else t)"

definition last_heading :: "string \<Rightarrow> string list \<Rightarrow> string" where
  "last_heading title ls =
     (case filter is_heading ls of [] \<Rightarrow> title | h # hs \<Rightarrow> heading_title (last (h # hs)))"

definition body_lines :: "string list \<Rightarrow> string list" where
  "body_lines ls = map (\<lambda>l. if is_blank l then [] else l) (filter (\<lambda>l. \<not> is_heading l) ls)"

definition first_heading_title :: "string list \<Rightarrow> string option" where
  "first_heading_title ls =
     (case filter is_heading ls of [] \<Rightarrow> None | h # hs \<Rightarrow> Some (heading_title h))"


section \<open>What the claims say about the worker and the providers\<close>





fun provider_calls :: "event list \<Rightarrow> (provider \<times> int \<times> string) list" where
  "provider_calls [] = []"
| "provider_calls (ProviderCall p t s # evs) = (p, t, s) # provider_calls evs"
| "provider_calls (e # evs) = provider_calls evs"

fun saved_before_completed :: "event list \<Rightarrow> bool" where
  "saved_before_completed [] = False"
| "saved_before_completed (DbSaveArticle a # evs) = True"
| "saved_before_completed (SetStatus t # evs) =
     (if Status t = TaskStatusCompleted then False else saved_before_completed evs)"
| "saved_before_completed (e # evs) = saved_before_completed evs"




text \<open>
  The task as the worker writes it: when the turn starts, when it fails with a message,
  and when it succeeds. \<open>turn_outcome\<close> is the terminal status of a turn; it depends on
  the turn and on the task only.
\<close>

definition running_task :: "iteration \<Rightarrow> GenerationTask \<Rightarrow> GenerationTask" where
  "running_task it t0 = t0\<lparr>Status := TaskStatusRunning, UpdatedAt := now_running it\<rparr>"

definition failed_task :: "iteration \<Rightarrow> GenerationTask \<Rightarrow> error \<Rightarrow> GenerationTask" where
  "failed_task it t0 msg = (running_task it t0)\<lparr>Status := TaskStatusFailed, Error := msg\<rparr>"

definition completed_task :: "iteration \<Rightarrow> GenerationTask \<Rightarrow> GenerationTask" where
  "completed_task it t0 =
     (running_task it t0)\<lparr>Status := TaskStatusCompleted, UpdatedAt := now_completed it\<rparr>"







text \<open>
  \<open>attempt_fails\<close> lists the outcomes of the call to DeepSeek that
  \<open>GenerateContent\<close> turns into an error: the request cannot be built, the transport
  fails (a timeout is such a failure), the body cannot be read, the status is not 200, the
  body cannot be parsed, or the response holds no choice.
\<close>

definition attempt_fails :: "(string \<Rightarrow> error + string list) \<Rightarrow> http_outcome \<Rightarrow> bool" where
  "attempt_fails unmarshal h =
     (case h of
        Responds st body \<Rightarrow>
          st \<noteq> 200 \<or> (case unmarshal body of Inl e \<Rightarrow> True | Inr choices \<Rightarrow> choices = [])
      | _ \<Rightarrow> True)"

text \<open>
  Concrete inputs: an environment where everything works and DeepSeek answers \<open># T\<close>,
  one where DeepSeek times out and Ollama answers 500, one where DeepSeek answers with a
  choice whose text is empty, and one where the row of the generation task cannot be
  created; a task, its keyword, the turns of the worker on these environments, and a
  text of 101 times the character U+4E2D.
\<close>

definition gen_up :: gen_env where
  "gen_up =
     \<lparr>render_prompt = (\<lambda>word. word), ai_timeout = 30, tables = sample_tables,
      unix_now = 1700000000, db_create_task = None,
      deepseek_http = (\<lambda>timeout prompt. Responds 200 ''{}''),
      deepseek_unmarshal = (\<lambda>body. Inr [''# T'']),
      ollama_http = (\<lambda>timeout prompt. Responds 200 ''{}''),
      ollama_unmarshal = (\<lambda>body. Inr ''# T''),
      new_article_id = 1, tx_create_article = None, tx_append_keyword = None,
      tx_find_categories = None, tx_append_categories = None, tx_update_task = None,
      tx_commit = None\<rparr>"

definition gen_down :: gen_env where
  "gen_down =
     gen_up\<lparr>deepseek_http := (\<lambda>timeout prompt. DoFails ''timeout''),
            ollama_http := (\<lambda>timeout prompt. Responds 500 ''busy'')\<rparr>"

definition gen_empty_text :: gen_env where
  "gen_empty_text = gen_up\<lparr>deepseek_unmarshal := (\<lambda>body. Inr [[]])\<rparr>"

definition gen_no_row :: gen_env where
  "gen_no_row = gen_up\<lparr>db_create_task := Some ''db down''\<rparr>"

definition task_1 :: GenerationTask where
  "task_1 =
     \<lparr>ID = ''task_1_7'', KeywordID = 1, CategoryIDs = [], Status = TaskStatusPending,
      Error = [], CreatedAt = 5, UpdatedAt = 5, UserID = 3\<rparr>"

definition keyword_1 :: Keyword where
  "keyword_1 = \<lparr>KwID = 1, Word = ''w''\<rparr>"

definition turn_up :: iteration where
  "turn_up =
     \<lparr>blpop_error = None, set_running_applied = True, set_final_applied = True,
      now_running = 6, now_completed = 7, db_first = (\<lambda>k. Inr keyword_1), gen = gen_up\<rparr>"

definition turn_down :: iteration where
  "turn_down = turn_up\<lparr>gen := gen_down\<rparr>"


definition one_task_world :: world where
  "one_task_world = empty_world\<lparr>queue := [Payload task_1]\<rparr>"

definition article_1 :: Article where
  "article_1 = (assemble sample_tables 1700000000 ''# T'')\<lparr>ArticleID := 1\<rparr>"

definition zhong :: string where
  "zhong = [CHR 0xE4, CHR 0xB8, CHR 0xAD]"

definition cjk_text :: string where
  "cjk_text = concat (replicate 101 zhong)"

section \<open>Properties of the summary\<close>

lemma ReplaceAll_single:
  "ReplaceAll s [a] [b] = map (\<lambda>c. if c = a then b else c) s"
  by (induction s) auto

lemma length_ReplaceAll_single [simp]: "length (ReplaceAll s [a] [b]) = length s"
  by (simp add: ReplaceAll_single)

lemma ReplaceAll_single_absent: "a \<notin> set s \<Longrightarrow> ReplaceAll s [a] [b] = s"
  by (induction s) auto

text \<open>
  The summary in bytes (Go's \<open>len\<close>): it is at most 303 bytes long; with the newlines
  replaced by spaces, a content of at most 300 bytes is returned as it is (verbatim when
  it has no newline), and a longer one is cut to its first 300 bytes with the three-byte
  marker \<open>...\<close> appended.
\<close>

lemma generateSummary_bytes:
  "length (generateSummary c) \<le> 303
   \<and> (length c \<le> 300 \<longrightarrow> generateSummary c = ReplaceAll c [CHR 0x0A] '' '')
   \<and> (length c \<le> 300 \<and> CHR 0x0A \<notin> set c \<longrightarrow> generateSummary c = c)
   \<and> (300 < length c \<longrightarrow>
        generateSummary c = take 300 (ReplaceAll c [CHR 0x0A] '' '') @ ''...''
        \<and> length (generateSummary c) = 303)"
  by (simp add: generateSummary_def Let_def ReplaceAll_single_absent)

lemma generateSummary_bytes_examples:
  "length (generateSummary ''ab'') \<le> 303
   \<and> generateSummary [CHR ''a'', CHR 0x0A, CHR ''b''] = ''a b''
   \<and> generateSummary ''ab'' = ''ab''
   \<and> generateSummary (replicate 301 (CHR ''x'')) = replicate 300 (CHR ''x'') @ ''...''"
  using generateSummary_bytes [of "''ab''"]
    generateSummary_bytes [of "[CHR ''a'', CHR 0x0A, CHR ''b'']"]
    generateSummary_bytes [of "replicate 301 (CHR ''x'')"]
  by (simp add: ReplaceAll_single)

lemma length_concat_replicate: "length (concat (replicate n xs)) = n * length xs"
  by (induction n) simp_all

lemma set_concat_replicate: "set (concat (replicate n xs)) \<subseteq> set xs"
  by (induction n) simp_all

lemma EncodeRune_zhong: "EncodeRune 0x4E2D = zhong"
  by (simp add: EncodeRune_def zhong_def char_of_def bit_0)

lemma EncodeRune_dot: "EncodeRune 46 = ''.''"
  by (simp add: EncodeRune_def char_of_def bit_0)

lemma concat_replicate_zhong:
  "concat (replicate n zhong) = concat (map EncodeRune (replicate n 0x4E2D))"
  by (simp add: EncodeRune_zhong)

lemma runes_zhong_dots:
  "runes (concat (replicate n zhong) @ concat (replicate m ''.''))
     = replicate n 0x4E2D @ replicate m 46"
proof -
  have v: "\<forall>r\<in>set (replicate n (0x4E2D :: rune) @ replicate m 46). ValidRune r"
    by (auto simp: ValidRune_def)
  have "concat (replicate n zhong) @ concat (replicate m ''.'')
          = concat (map EncodeRune (replicate n 0x4E2D @ replicate m 46))"
    by (simp add: EncodeRune_zhong EncodeRune_dot)
  then show ?thesis using runes_concat_Encode [OF v] by simp
qed

lemma cjk_text_split: "cjk_text = concat (replicate 100 zhong) @ zhong"
proof -
  have "(101::nat) = 100 + 1" by simp
  then have "replicate 101 zhong = replicate 100 zhong @ replicate 1 zhong"
    by (simp only: replicate_add)
  then show ?thesis by (simp add: cjk_text_def)
qed

text \<open>
  C4. The summary is cut by bytes, not by characters. The text of 101 times the character
  U+4E2D has 101 characters (303 bytes) and no newline, so a summary of at most 300
  characters would be the text itself; \<open>generateSummary\<close> returns its first 100
  characters followed by \<open>...\<close>, a summary of 103 characters that is not the text.
\<close>

theorem generateSummary_cuts_bytes:
  "length (runes cjk_text) = 101
   \<and> CHR 0x0A \<notin> set cjk_text
   \<and> generateSummary cjk_text = concat (replicate 100 zhong) @ ''...''
   \<and> generateSummary cjk_text \<noteq> cjk_text
   \<and> length (runes (generateSummary cjk_text)) = 103"
proof -
  have r: "length (runes cjk_text) = 101"
    using runes_zhong_dots [of 101 0] by (simp add: cjk_text_def)
  have nl: "CHR 0x0A \<notin> set cjk_text"
    using set_concat_replicate [of 101 zhong] by (auto simp: cjk_text_def zhong_def)
  have l100: "length (concat (replicate 100 zhong)) = 300"
    by (simp add: length_concat_replicate zhong_def)
  have len: "length cjk_text = 303"
    by (simp add: cjk_text_def length_concat_replicate zhong_def)
  have tk: "take 300 cjk_text = concat (replicate 100 zhong)"
    unfolding cjk_text_split using l100 by simp
  have g: "generateSummary cjk_text = concat (replicate 100 zhong) @ ''...''"
    by (simp add: generateSummary_def Let_def ReplaceAll_single_absent [OF nl] len tk)
  have ne: "generateSummary cjk_text \<noteq> cjk_text"
  proof
    assume "generateSummary cjk_text = cjk_text"
    then have "concat (replicate 100 zhong) @ ''...'' = concat (replicate 100 zhong) @ zhong"
      using g cjk_text_split by simp
    then show False by (simp add: zhong_def)
  qed
  have "concat (replicate 3 ''.'') = ''...''" by (simp add: numeral_3_eq_3)
  then have "length (runes (generateSummary cjk_text)) = 103"
    unfolding g using runes_zhong_dots [of 100 3] by simp
  then show ?thesis using r nl g ne by simp
qed

section \<open>Properties of the content filter\<close>

lemma length_Encode_RuneError: "length (EncodeRune RuneError) = 3"
  by (simp add: EncodeRune_def RuneError_def Let_def)

lemma ValidString_concat_Encode:
  assumes "\<forall>r\<in>set rs. ValidRune r"
  shows "ValidString (concat (map EncodeRune rs))"
  unfolding ValidString_def chunks_concat_Encode [OF assms]
  by (auto simp: list_all_iff invalid_chunk_def length_Encode_RuneError)

lemma runes_Map:
  assumes "\<And>r. ValidRune r \<Longrightarrow> 0 \<le> f r \<Longrightarrow> ValidRune (f r)"
  shows "runes (Map f s) = filter (\<lambda>r. 0 \<le> r) (map f (runes s))"
  unfolding Map_def
  by (rule runes_concat_Encode) (auto dest: runes_valid intro: assms)

definition printable_or_space :: "unicode_tables \<Rightarrow> rune \<Rightarrow> rune" where
  "printable_or_space U r = (if IsPrint U r \<or> r = 0x0A \<or> r = 0x09 then r else 0x20)"

definition drop_control :: "rune \<Rightarrow> rune" where
  "drop_control r = (if IsControl r \<and> r \<noteq> 0x0A \<and> r \<noteq> 0x09 then - 1 else r)"

lemma ValidRune_space: "ValidRune 0x20"
  by (simp add: ValidRune_def)

lemma FilterContent_runes:
  "FilterContent U s =
     concat (map EncodeRune (filter (\<lambda>r. 0 \<le> r)
       (map drop_control (map (printable_or_space U) (runes s)))))"
proof -
  define step1 where "step1 = concat (map EncodeRune (map (printable_or_space U) (runes s)))"
  have v: "\<forall>r\<in>set (map (printable_or_space U) (runes s)). ValidRune r"
    by (auto simp: printable_or_space_def ValidRune_space dest: runes_valid)
  have valid: "ValidString step1"
    unfolding step1_def by (rule ValidString_concat_Encode [OF v])
  have r1: "runes step1 = map (printable_or_space U) (runes s)"
    unfolding step1_def by (rule runes_concat_Encode [OF v])
  have s1: "concat (map (\<lambda>r. if IsPrint U r \<or> r = 0x0A \<or> r = 0x09
                 then EncodeRune r else EncodeRune 0x20) (runes s)) = step1"
    unfolding step1_def printable_or_space_def
    by (simp add: comp_def if_distrib [of EncodeRune])
  have "FilterContent U s = Map drop_control step1"
    unfolding FilterContent_def s1 Let_def using valid
    by (simp add: drop_control_def [abs_def])
  then show ?thesis by (simp add: Map_def r1)
qed

lemma drop_control_kept: "0 \<le> drop_control r \<Longrightarrow> drop_control r = r"
  by (simp add: drop_control_def split: if_splits)

lemma printable_or_space_idem:
  "printable_or_space U (printable_or_space U r) = printable_or_space U r"
  by (simp add: printable_or_space_def)

text \<open>
  C10. \<open>FilterContent\<close> is idempotent: its output holds printable runes, newlines, tabs
  and spaces only, written in well-formed UTF-8, and the filter passes all of them.
\<close>

theorem FilterContent_idempotent:
  "FilterContent U (FilterContent U s) = FilterContent U s"
proof -
  define out where
    "out = filter (\<lambda>r. 0 \<le> r) (map drop_control (map (printable_or_space U) (runes s)))"
  have fc: "FilterContent U s = concat (map EncodeRune out)"
    by (simp add: FilterContent_runes out_def)
  have el: "\<exists>r0. r = printable_or_space U r0 \<and> drop_control r = r \<and> 0 \<le> r \<and> ValidRune r"
    if "r \<in> set out" for r
  proof -
    from that obtain r0 where r0: "r0 \<in> set (runes s)"
      "r = drop_control (printable_or_space U r0)" "0 \<le> r"
      by (auto simp: out_def)
    then have eq: "r = printable_or_space U r0" using drop_control_kept by metis
    moreover have "ValidRune (printable_or_space U r0)"
      using runes_valid [OF r0(1)] by (simp add: printable_or_space_def ValidRune_space)
    ultimately show ?thesis using r0 by metis
  qed
  then have v: "\<forall>r\<in>set out. ValidRune r" by blast
  have ro: "runes (concat (map EncodeRune out)) = out"
    by (rule runes_concat_Encode [OF v])
  have m1: "map (printable_or_space U) out = out"
    using el by (intro map_idI) (metis printable_or_space_idem)
  have m2: "map drop_control out = out"
    using el by (intro map_idI) metis
  have m3: "filter (\<lambda>r. 0 \<le> r) out = out"
    using el by (intro filter_True) metis
  show ?thesis
    unfolding fc by (simp add: FilterContent_runes ro m1 m2 m3)
qed


section \<open>Properties of the cleaning step\<close>

lemma clean_rune_kept: "clean_rune r = (if kept_rune r then r else - 1)"
  by (auto simp: clean_rune_def kept_rune_def)

lemma filter_clean_rune: "filter (\<lambda>r. 0 \<le> r) (map clean_rune rs) = filter kept_rune rs"
  by (induction rs) (auto simp: clean_rune_kept kept_rune_def)

text \<open>
  C6 (as amended). The cleaning step drops exactly the runes below 32 and the runes from 127
  to 255, so no control character is stored; it keeps printable ASCII and every rune from 256
  up, so text in other scripts (CJK for one) is stored as it is.
\<close>

theorem clean_keeps_high_runes:
  "runes (Map clean_rune s) = filter kept_rune (runes s)
   \<and> list_all kept_rune (runes (Map clean_rune s))
   \<and> list_all (\<lambda>r. \<not> IsControl r) (runes (Map clean_rune s))"
proof -
  have "runes (Map clean_rune s) = filter (\<lambda>r. 0 \<le> r) (map clean_rune (runes s))"
    by (rule runes_Map) (auto simp: clean_rune_def split: if_splits)
  also have "\<dots> = filter kept_rune (runes s)"
    by (rule filter_clean_rune)
  finally have eq: "runes (Map clean_rune s) = filter kept_rune (runes s)" .
  show ?thesis
    unfolding eq by (auto simp: list_all_iff kept_rune_def IsControl_def)
qed

lemma chunks_zhong: "chunks [CHR 0xE4, CHR 0xB8, CHR 0xAD] = [(0x4E2D, [CHR 0xE4, CHR 0xB8, CHR 0xAD])]"
  by (simp add: chunks_Cons DecodeRuneInString.simps first_size_def accept_lo_def accept_hi_def cont_def)

text \<open>
  C6 as stated fails: the CJK character U+4E2D (bytes E4 B8 AD) passes the cleaning step
  unchanged, and it is not a printable Latin-1 rune.
\<close>

theorem clean_keeps_cjk_counterexample:
  "Map clean_rune [CHR 0xE4, CHR 0xB8, CHR 0xAD] = [CHR 0xE4, CHR 0xB8, CHR 0xAD]
   \<and> runes (Map clean_rune [CHR 0xE4, CHR 0xB8, CHR 0xAD]) = [0x4E2D]
   \<and> \<not> list_all latin1_printable (runes (Map clean_rune [CHR 0xE4, CHR 0xB8, CHR 0xAD]))"
  by (simp add: Map_def runes_def chunks_zhong clean_rune_def EncodeRune_def latin1_printable_def
      char_of_def bit_0)

section \<open>Properties of the slug\<close>

lemma generateSlug_core:
  "generateSlug U now title =
     truncate_slug (if slug_core U title = [] then ''article-'' @ fmt_d now else slug_core U title)"
  by (simp add: generateSlug_def slug_core_def truncate_slug_def Let_def)

lemma alnum_not_hyphen: "alnum c \<Longrightarrow> c \<noteq> CHR ''-''"
  by (auto simp: alnum_def)

lemma Contains_sublist: "Contains s sub = sublist sub s"
  by (induction s) (auto simp: sublist_Cons_right)

lemma slug_match_iff:
  "slug_match ok s =
     (if s = [] then ok
      else slug_shape s \<and> (hd s = CHR ''-'' \<longrightarrow> ok) \<and> last s \<noteq> CHR ''-'')"
proof (induction s arbitrary: ok)
  case Nil
  then show ?case by simp
next
  case (Cons c cs)
  show ?case
  proof (cases cs)
    case Nil
    then show ?thesis by (auto simp: slug_shape_def alnum_not_hyphen sublist_Cons_right)
  next
    case (Cons d ds)
    then show ?thesis
      using Cons.IH [of True] Cons.IH [of False]
      by (auto simp: slug_shape_def alnum_not_hyphen sublist_Cons_right)
  qed
qed

lemma matches_slugI:
  "s \<noteq> [] \<Longrightarrow> slug_shape s \<Longrightarrow> hd s \<noteq> CHR ''-'' \<Longrightarrow> last s \<noteq> CHR ''-'' \<Longrightarrow> matches_slug s"
  by (simp add: matches_slug_def slug_match_iff)

lemma slug_shape_sublist: "sublist t s \<Longrightarrow> slug_shape s \<Longrightarrow> slug_shape t"
  unfolding slug_shape_def
  by (meson set_mono_sublist sublist_order.order.trans subsetD)

lemma TrimRight_prefix: "prefix (TrimRight s c) s"
proof -
  have "rev s = takeWhile (\<lambda>x. x = c) (rev s) @ dropWhile (\<lambda>x. x = c) (rev s)" by simp
  then have "s = rev (dropWhile (\<lambda>x. x = c) (rev s)) @ rev (takeWhile (\<lambda>x. x = c) (rev s))"
    by (metis rev_append rev_rev_ident)
  then show ?thesis unfolding TrimRight_def by (metis prefixI)
qed

lemma TrimRight_last: "TrimRight s c \<noteq> [] \<Longrightarrow> last (TrimRight s c) \<noteq> c"
  unfolding TrimRight_def using hd_dropWhile [of "\<lambda>x. x = c" "rev s"]
  by (simp add: last_rev)

lemma TrimRight_hd: "s \<noteq> [] \<Longrightarrow> hd s \<noteq> c \<Longrightarrow> TrimRight s c \<noteq> [] \<and> hd (TrimRight s c) = hd s"
proof -
  assume s: "s \<noteq> []" "hd s \<noteq> c"
  have "hd s \<in> set (rev s)" using s by simp
  then have ne: "dropWhile (\<lambda>x. x = c) (rev s) \<noteq> []"
    using s(2) by (metis (mono_tags, lifting) dropWhile_eq_Nil_conv)
  then have ne': "TrimRight s c \<noteq> []" by (simp add: TrimRight_def)
  obtain zs where "s = TrimRight s c @ zs" using TrimRight_prefix [of s c] by (auto simp: prefix_def)
  then have "hd s = hd (TrimRight s c)" using ne' by (metis hd_append2)
  then show ?thesis using ne' by simp
qed

lemma Trim_TrimRight: "Trim s c = TrimRight (dropWhile (\<lambda>x. x = c) s) c"
  by (simp add: Trim_def TrimRight_def)

lemma Trim_sublist: "sublist (Trim s c) s"
proof -
  have "sublist (Trim s c) (dropWhile (\<lambda>x. x = c) s)"
    unfolding Trim_TrimRight by (rule prefix_imp_sublist [OF TrimRight_prefix])
  moreover have "sublist (dropWhile (\<lambda>x. x = c) s) s"
    by (rule suffix_imp_sublist [OF suffix_dropWhile])
  ultimately show ?thesis by (rule sublist_order.order.trans)
qed

lemma Trim_ends: "Trim s c \<noteq> [] \<Longrightarrow> hd (Trim s c) \<noteq> c \<and> last (Trim s c) \<noteq> c"
proof -
  assume ne: "Trim s c \<noteq> []"
  let ?d = "dropWhile (\<lambda>x. x = c) s"
  have d: "?d \<noteq> []" using ne by (cases "?d = []") (simp_all add: Trim_def)
  then have "hd ?d \<noteq> c" using hd_dropWhile [of "\<lambda>x. x = c" s] by simp
  then have "hd (Trim s c) = hd ?d" unfolding Trim_TrimRight using TrimRight_hd [OF d] by simp
  then show ?thesis using \<open>hd ?d \<noteq> c\<close> TrimRight_last [of ?d c] ne by (simp add: Trim_TrimRight)
qed

lemma set_ReplaceAll: "set (ReplaceAll s old new) \<subseteq> set s \<union> set new"
proof (induction s old new rule: ReplaceAll.induct)
  case (1 old new)
  then show ?case by simp
next
  case (2 c cs old new)
  show ?case
  proof (cases "old \<noteq> [] \<and> prefix old (c # cs)")
    case True
    have "set (drop (length old) (c # cs)) \<subseteq> set (c # cs)" by (rule set_drop_subset)
    then show ?thesis using True 2(1) [OF True] by auto
  next
    case False
    then show ?thesis using 2(2) [OF False] by auto
  qed
qed

lemma collapse_hyphens_set:
  "set (collapse_hyphens s) \<subseteq> set s \<union> {CHR ''-''}"
proof (induction s rule: collapse_hyphens.induct)
  case (1 slug)
  show ?case
  proof (cases "Contains slug ''--''")
    case True
    then show ?thesis
      using 1 [OF True] set_ReplaceAll [of slug "''--''" "''-''"]
      by (subst collapse_hyphens.simps) auto
  next
    case False
    then show ?thesis by (subst collapse_hyphens.simps) auto
  qed
qed

lemma collapse_hyphens_no_double: "\<not> sublist ''--'' (collapse_hyphens s)"
proof (induction s rule: collapse_hyphens.induct)
  case (1 slug)
  show ?case
  proof (cases "Contains slug ''--''")
    case True
    then show ?thesis using 1 [OF True] by (subst collapse_hyphens.simps) simp
  next
    case False
    then show ?thesis by (subst collapse_hyphens.simps) (simp add: Contains_sublist)
  qed
qed

lemma Encode_slug_rune:
  assumes "(0x61 \<le> r \<and> r \<le> 0x7A) \<or> (0x30 \<le> r \<and> r \<le> 0x39) \<or> r = 0x2D"
  shows "\<exists>c. EncodeRune r = [c] \<and> (alnum c \<or> c = CHR ''-'')"
proof -
  have enc: "EncodeRune r = [char_of (nat r)]"
    using assms by (auto simp: EncodeRune_def Let_def RuneError_def)
  have oc: "of_char (char_of (nat r)) = nat r" using assms by auto
  show ?thesis
  proof (cases "r = 0x2D")
    case True
    then show ?thesis using enc by (simp add: char_of_def bit_0)
  next
    case False
    then have "alnum (char_of (nat r))" using assms unfolding alnum_def oc by auto
    then show ?thesis using enc by simp
  qed
qed

lemma Map_slug_chars:
  assumes "c \<in> set (Map (\<lambda>r. if (0x61 \<le> r \<and> r \<le> 0x7A) \<or> (0x30 \<le> r \<and> r \<le> 0x39) \<or> r = 0x2D then r else - 1) s)"
  shows "alnum c \<or> c = CHR ''-''"
proof -
  from assms obtain r where r: "c \<in> set (EncodeRune r)"
    "(0x61 \<le> r \<and> r \<le> 0x7A) \<or> (0x30 \<le> r \<and> r \<le> 0x39) \<or> r = 0x2D"
    by (auto simp: Map_def split: if_splits)
  then show ?thesis using Encode_slug_rune [OF r(2)] by auto
qed

lemma slug_core_shape: "slug_shape (slug_core U title)"
proof -
  let ?m = "Map (\<lambda>r. if (0x61 \<le> r \<and> r \<le> 0x7A) \<or> (0x30 \<le> r \<and> r \<le> 0x39) \<or> r = 0x2D then r else - 1)
         (ReplaceAll
           (Map (\<lambda>r. if r < 128 then r else - 1)
             (ToLower U (if \<not> ValidString title then ToValidUTF8 title else title)))
           '' '' ''-'')"
  have "slug_shape (collapse_hyphens ?m)"
    unfolding slug_shape_def
    using collapse_hyphens_set [of ?m] collapse_hyphens_no_double [of ?m] Map_slug_chars
    by blast
  then show ?thesis
    unfolding slug_core_def by (rule slug_shape_sublist [OF Trim_sublist])
qed

lemma slug_core_matches: "slug_core U title \<noteq> [] \<Longrightarrow> matches_slug (slug_core U title)"
  using Trim_ends [of _ "CHR ''-''"] slug_core_shape
  by (intro matches_slugI) (auto simp: slug_core_def)

lemma truncate_slug_matches:
  assumes "matches_slug s"
  shows "matches_slug (truncate_slug s) \<and> length (truncate_slug s) \<le> 100"
proof (cases "length s > 100")
  case False
  then show ?thesis using assms by (simp add: truncate_slug_def)
next
  case True
  have s: "s \<noteq> []" "slug_shape s" "hd s \<noteq> CHR ''-''"
    using assms True by (auto simp: matches_slug_def slug_match_iff split: if_splits)
  let ?t = "take 100 s"
  have t: "?t \<noteq> []" "hd ?t = hd s" using s by (cases s; simp)+
  let ?u = "TrimRight ?t (CHR ''-'')"
  have u: "?u \<noteq> []" "hd ?u = hd ?t" using TrimRight_hd [OF t(1)] t(2) s(3) by simp_all
  have pre: "prefix ?u ?t" by (rule TrimRight_prefix)
  have "sublist ?u s"
    using prefix_imp_sublist [OF pre] prefix_imp_sublist [OF take_is_prefix [of 100 s]]
    by (rule sublist_order.order.trans)
  then have "slug_shape ?u" using s(2) by (rule slug_shape_sublist)
  moreover have "last ?u \<noteq> CHR ''-''" using TrimRight_last [OF u(1)] .
  ultimately have "matches_slug ?u" using u t s by (intro matches_slugI) simp_all
  moreover have "length ?u \<le> 100" using prefix_length_le [OF pre] by simp
  ultimately show ?thesis using True by (simp add: truncate_slug_def)
qed

lemma is_digit_alnum: "is_digit c \<Longrightarrow> alnum c"
  by (simp add: is_digit_def alnum_def)

lemma digits_props: "digits n \<noteq> [] \<and> list_all is_digit (digits n)"
proof (induction n rule: digits.induct)
  case (1 n)
  have d: "is_digit (char_of (48 + k))" if "k < 10" for k :: nat
  proof -
    have "of_char (char_of (48 + k)) = 48 + k" using that by simp
    then show ?thesis using that by (simp add: is_digit_def)
  qed
  show ?case
  proof (cases "n < 10")
    case True
    then show ?thesis by (subst (1 2) digits.simps) (simp add: d)
  next
    case False
    then show ?thesis using 1 by (subst (1 2) digits.simps) (simp add: d)
  qed
qed

lemma slug_match_digits: "list_all is_digit ds \<Longrightarrow> ds \<noteq> [] \<or> ok \<Longrightarrow> slug_match ok ds"
  by (induction ds arbitrary: ok) (auto simp: is_digit_alnum)

lemma fallback_matches_slug:
  "ds \<noteq> [] \<Longrightarrow> list_all is_digit ds \<Longrightarrow> matches_slug (''article-'' @ ds)"
  by (simp add: matches_slug_def alnum_def slug_match_digits)

lemma TrimRight_id: "s \<noteq> [] \<Longrightarrow> last s \<noteq> c \<Longrightarrow> TrimRight s c = s"
  by (cases "rev s") (auto simp: TrimRight_def last_rev hd_rev)

lemma fallback_truncate:
  assumes "ds \<noteq> []" "list_all is_digit ds"
  shows "matches_fallback (truncate_slug (''article-'' @ ds))"
proof (cases "length (''article-'' @ ds) > 100")
  case False
  then show ?thesis using assms by (simp add: truncate_slug_def matches_fallback_def)
next
  case True
  let ?t = "take 100 (''article-'' @ ds)"
  have t: "?t = ''article-'' @ take 92 ds" by simp
  have ne: "take 92 ds \<noteq> []" using assms(1) by (cases ds) simp_all
  have dg: "list_all is_digit (take 92 ds)" using assms(2) by (auto simp: list_all_iff dest: in_set_takeD)
  have "is_digit (last (take 92 ds))" using ne dg by (metis last_in_set list_all_iff)
  then have "last ?t \<noteq> CHR ''-''" unfolding t using ne by (auto simp: is_digit_def)
  then have "TrimRight ?t (CHR ''-'') = ?t" by (intro TrimRight_id) simp_all
  then have "truncate_slug (''article-'' @ ds) = ''article-'' @ take 92 ds"
    using True by (simp add: truncate_slug_def)
  then show ?thesis using ne dg by (simp add: matches_fallback_def)
qed

text \<open>
  C3. For a clock reading at or after the epoch, the slug of every title matches
  \<open>^[a-z0-9]+(-[a-z0-9]+)*$\<close> and has at most 100 bytes. The slug is computed as
  \<open>slug_core\<close> says (lower-case, strip non-ASCII, spaces to hyphens, strip what is outside
  \<open>[a-z0-9-]\<close>, collapse repeated hyphens, trim hyphens), then cut to 100 bytes with a
  trailing hyphen trimmed; when that leaves nothing, the slug is the fallback
  \<open>article-<digits>\<close>.
\<close>

theorem generateSlug_matches:
  assumes "0 \<le> now"
  shows "matches_slug (generateSlug U now title)
         \<and> length (generateSlug U now title) \<le> 100
         \<and> (slug_core U title = [] \<longrightarrow> matches_fallback (generateSlug U now title))
         \<and> (slug_core U title \<noteq> [] \<longrightarrow> generateSlug U now title = truncate_slug (slug_core U title))"
proof (cases "slug_core U title = []")
  case True
  have f: "fmt_d now = digits (nat now)" using assms by (simp add: fmt_d_def)
  have g: "generateSlug U now title = truncate_slug (''article-'' @ digits (nat now))"
    using True by (simp add: generateSlug_core f)
  have "matches_slug (''article-'' @ digits (nat now))"
    using digits_props by (intro fallback_matches_slug) simp_all
  then show ?thesis
    using True truncate_slug_matches fallback_truncate digits_props unfolding g by blast
next
  case False
  have g: "generateSlug U now title = truncate_slug (slug_core U title)"
    using False by (simp add: generateSlug_core)
  show ?thesis
    using False truncate_slug_matches [OF slug_core_matches [OF False]] unfolding g by blast
qed

lemmas eval_simps = runes_def chunks_Cons DecodeRuneInString.simps first_size_def accept_lo_def
  accept_hi_def cont_def RuneError_def Map_def EncodeRune_def ValidString_def invalid_chunk_def
  ToValidUTF8_def ToLower_def unicode_ToLower_def IsPrint_def IsControl_def IsSpace_def
  TrimSpace_def Trim_def TrimRight_def HasPrefix_def TrimPrefix_def sample_tables_def
  char_of_def bit_0 Let_def

lemma slug_core_hello: "slug_core sample_tables ''Hello  World!'' = ''hello-world''"
  by (simp add: slug_core_def eval_simps collapse_hyphens.simps)

lemma slug_core_punctuation: "slug_core sample_tables ''!!'' = []"
  by (simp add: slug_core_def eval_simps collapse_hyphens.simps)

text \<open>The example of the specification: the title \<open>"<four CJK characters> Tips!!"\<close>.\<close>

lemma slug_core_tips:
  "slug_core sample_tables
     [CHR 0xE4, CHR 0xB8, CHR 0xAD, CHR 0xE5, CHR 0x8C, CHR 0xBB, CHR 0xE5, CHR 0x85, CHR 0xBB,
      CHR 0xE7, CHR 0x94, CHR 0x9F, CHR '' '', CHR ''T'', CHR ''i'', CHR ''p'', CHR ''s'',
      CHR ''!'', CHR ''!'']
   = ''tips''"
  by (simp add: slug_core_def eval_simps collapse_hyphens.simps)

lemma generateSlug_hello:
  "generateSlug sample_tables 1700000000 ''Hello  World!'' = ''hello-world''"
  by (simp add: generateSlug_core slug_core_hello truncate_slug_def)

lemma generateSlug_punctuation:
  "generateSlug sample_tables 1700000000 ''!!'' = ''article-1700000000''"
  by (simp add: generateSlug_core slug_core_punctuation truncate_slug_def fmt_d_def digits.simps
      char_of_def bit_0)

theorem generateSlug_matches_witness:
  "(0::int) \<le> 1700000000
   \<and> generateSlug sample_tables 1700000000 ''Hello  World!'' = ''hello-world''
   \<and> matches_slug (generateSlug sample_tables 1700000000 ''Hello  World!'')
   \<and> length (generateSlug sample_tables 1700000000 ''Hello  World!'') \<le> 100
   \<and> slug_core sample_tables ''!!'' = []
   \<and> generateSlug sample_tables 1700000000 ''!!'' = ''article-1700000000''
   \<and> matches_fallback (generateSlug sample_tables 1700000000 ''!!'')"
  using generateSlug_matches [of 1700000000 sample_tables "''Hello  World!''"]
    generateSlug_matches [of 1700000000 sample_tables "''!!''"]
  by (simp add: generateSlug_hello generateSlug_punctuation slug_core_punctuation)

section \<open>Properties of the title and the body\<close>

lemma accept_ge: "\<not> s1 < accept_lo s0 \<Longrightarrow> (0x80::nat) \<le> s1"
  by (auto simp: accept_lo_def split: if_splits)

lemma first_size_cases:
  "first_size b = 0 \<or> first_size b = 1 \<or> first_size b = 2 \<or> first_size b = 3 \<or> first_size b = 4"
  by (simp add: first_size_def)

lemma first_size_1: "first_size b = 1 \<longleftrightarrow> b < 0x80"
  by (simp add: first_size_def)

lemma Decode_wide:
  assumes "snd (DecodeRuneInString (c0 # t)) \<noteq> 1"
  shows "2 \<le> snd (DecodeRuneInString (c0 # t))
         \<and> snd (DecodeRuneInString (c0 # t)) \<le> Suc (length t)
         \<and> (0x80::nat) \<le> of_char (t ! (snd (DecodeRuneInString (c0 # t)) - 2))"
proof -
  consider "first_size (of_char c0) = 0" | "first_size (of_char c0) = 1"
    | "first_size (of_char c0) = 2" | "first_size (of_char c0) = 3" | "first_size (of_char c0) = 4"
    using first_size_cases [of "of_char c0"] by auto
  then show ?thesis
  proof cases
    case 1
    then show ?thesis using assms by (simp add: DecodeRuneInString.simps)
  next
    case 2
    then show ?thesis using assms by (simp add: DecodeRuneInString.simps)
  next
    case 3
    then show ?thesis using assms
      by (auto simp: DecodeRuneInString.simps Let_def Suc_le_eq dest: accept_ge split: if_splits)
  next
    case 4
    then show ?thesis using assms
      by (auto simp: DecodeRuneInString.simps Let_def cont_def Suc_le_eq split: if_splits)
  next
    case 5
    then show ?thesis using assms
      by (auto simp: DecodeRuneInString.simps Let_def cont_def Suc_le_eq numeral_3_eq_3 split: if_splits)
  qed
qed

lemma Decode_ascii_last:
  assumes "of_char (last (take (snd (DecodeRuneInString (c0 # t))) (c0 # t))) < (0x80::nat)"
  shows "fst (DecodeRuneInString (c0 # t))
           = int (of_char (last (take (snd (DecodeRuneInString (c0 # t))) (c0 # t))))"
proof (cases "snd (DecodeRuneInString (c0 # t)) = 1")
  case True
  then have "of_char c0 < (0x80::nat)" using assms by simp
  then show ?thesis using Decode1 [of c0 t] by simp
next
  case False
  define w where "w = snd (DecodeRuneInString (c0 # t))"
  have w: "2 \<le> w" "w \<le> Suc (length t)" "(0x80::nat) \<le> of_char (t ! (w - 2))"
    using Decode_wide [OF False] by (simp_all add: w_def)
  have "last (take w (c0 # t)) = (c0 # t) ! (w - 1)"
    using w by (simp add: last_conv_nth min_def)
  also have "\<dots> = t ! (w - 2)" using w by (cases w) (simp_all add: numeral_2_eq_2)
  finally show ?thesis using assms w(3) by (simp add: w_def)
qed

lemma chunk_ascii_last:
  "(r, b) \<in> set (chunks s) \<Longrightarrow>
   b \<noteq> [] \<and> (of_char (last b) < (0x80::nat) \<longrightarrow> r = int (of_char (last b)))"
proof (induction s rule: chunks.induct)
  case (1 s)
  show ?case
  proof (cases s)
    case Nil
    then show ?thesis using 1(2) by simp
  next
    case (Cons c0 t)
    obtain r0 w where d: "DecodeRuneInString s = (r0, w)" by (cases "DecodeRuneInString s")
    have ne: "s \<noteq> []" using Cons by simp
    have w: "1 \<le> w" using DecodeRune_width [OF ne] d by simp
    have mem: "(r, b) = (r0, take w s) \<or> (r, b) \<in> set (chunks (drop w s))"
      using 1(2) d by (simp add: chunks_Cons [OF ne])
    then show ?thesis
    proof
      assume eq: "(r, b) = (r0, take w s)"
      have "b \<noteq> []" using eq w ne by (cases w) auto
      moreover have "of_char (last b) < (0x80::nat) \<longrightarrow> r = int (of_char (last b))"
        using Decode_ascii_last [of c0 t] eq d unfolding Cons by auto
      ultimately show ?thesis by simp
    next
      assume "(r, b) \<in> set (chunks (drop w s))"
      then show ?thesis using 1(1) [OF ne d [symmetric] refl] by simp
    qed
  qed
qed

lemma last_concat_map_snd:
  assumes "cs \<noteq> []" "\<forall>c\<in>set cs. snd c \<noteq> []"
  shows "last (concat (map snd cs)) = last (snd (last cs))"
  using assms
proof (induction cs rule: rev_induct)
  case Nil
  then show ?case by simp
next
  case (snoc c cs)
  then show ?case by simp
qed

lemma TrimSpace_last: "TrimSpace s \<noteq> [] \<Longrightarrow> last (TrimSpace s) \<noteq> CHR '' ''"
proof
  assume ne: "TrimSpace s \<noteq> []" and sp: "last (TrimSpace s) = CHR '' ''"
  let ?sp = "\<lambda>c :: rune \<times> string. IsSpace (fst c)"
  define ds where "ds = dropWhile ?sp (rev (dropWhile ?sp (chunks s)))"
  have ts: "TrimSpace s = concat (map snd (rev ds))" by (simp add: TrimSpace_def ds_def)
  have ds: "ds \<noteq> []" using ne ts by auto
  have sub: "set (rev ds) \<subseteq> set (chunks s)"
  proof
    fix c assume "c \<in> set (rev ds)"
    then have "c \<in> set (rev (dropWhile ?sp (chunks s)))"
      unfolding ds_def by (auto dest: set_dropWhileD)
    then show "c \<in> set (chunks s)" by (auto dest: set_dropWhileD)
  qed
  have nonempty: "\<forall>c\<in>set (rev ds). snd c \<noteq> []"
    using sub chunk_ascii_last by (metis prod.collapse subsetD)
  have nsp: "\<not> ?sp (hd ds)" using ds hd_dropWhile [of ?sp] unfolding ds_def by blast
  have l: "last (rev ds) = hd ds" using ds by (simp add: last_rev)
  have "last (TrimSpace s) = last (snd (hd ds))"
    unfolding ts using last_concat_map_snd [OF _ nonempty] ds l by simp
  then have b: "last (snd (hd ds)) = CHR '' ''" using sp by simp
  have "hd ds \<in> set (chunks s)" using sub ds by auto
  then have "fst (hd ds) = int (of_char (last (snd (hd ds))))"
    using chunk_ascii_last [of "fst (hd ds)" "snd (hd ds)" s] b by simp
  then have "fst (hd ds) = 0x20" using b by simp
  then show False using nsp by (simp add: IsSpace_def)
qed

lemma blank_not_heading: "is_blank l \<Longrightarrow> \<not> is_heading l"
  by (simp add: is_blank_def is_heading_def HasPrefix_def)

lemma heading_title_nonempty: "is_heading l \<Longrightarrow> heading_title l \<noteq> []"
proof
  assume h: "is_heading l" and e: "heading_title l = []"
  from h obtain r where r: "TrimSpace l = ''# '' @ r"
    by (auto simp: is_heading_def HasPrefix_def prefix_def)
  then have "r = []" using e h by (simp add: heading_title_def TrimPrefix_def is_heading_def)
  then have "TrimSpace l = ''# ''" using r by simp
  then show False using TrimSpace_last [of l] by simp
qed

lemma last_heading_Cons:
  "last_heading title (l # ls) =
     (if is_heading l then last_heading (heading_title l) ls else last_heading title ls)"
  by (auto simp: last_heading_def split: list.splits)

lemma parseLines_started:
  "title \<noteq> [] \<Longrightarrow>
   parseLines ls title acc True = (last_heading title ls, acc @ body_lines ls)"
proof (induction ls arbitrary: title acc)
  case Nil
  then show ?case by (simp add: last_heading_def body_lines_def)
next
  case (Cons raw rest)
  consider "is_blank raw" | "is_heading raw" | "\<not> is_blank raw" "\<not> is_heading raw" by blast
  then show ?case
  proof cases
    case 1
    then show ?thesis
      using Cons.IH [OF Cons.prems] blank_not_heading [OF 1]
      by (simp add: last_heading_Cons body_lines_def is_blank_def)
  next
    case 2
    then have nb: "TrimSpace raw \<noteq> []" using blank_not_heading by (auto simp: is_blank_def)
    show ?thesis
      using 2 nb Cons.IH [OF heading_title_nonempty [OF 2]]
      by (simp add: last_heading_Cons body_lines_def is_heading_def heading_title_def)
  next
    case 3
    then show ?thesis
      using Cons.IH [OF Cons.prems] Cons.prems
      by (simp add: last_heading_Cons body_lines_def is_heading_def is_blank_def)
  qed
qed

lemma parseLines_initial:
  "parseLines ls [] [] False =
     (case dropWhile is_blank ls of
        [] \<Rightarrow> ([], [])
      | l # rest \<Rightarrow>
          parseLines rest (if is_heading l then heading_title l else TrimSpace l) [] True)"
  by (induction ls) (simp_all add: is_blank_def is_heading_def heading_title_def)

lemma parseLines_spec:
  "parseLines ls [] [] False =
     (if \<forall>l\<in>set ls. is_blank l then ([], []) else (spec_title ls, spec_body ls))"
proof (cases "dropWhile is_blank ls")
  case Nil
  then have "\<forall>l\<in>set ls. is_blank l" by (simp add: dropWhile_eq_Nil_conv)
  then show ?thesis unfolding parseLines_initial Nil by simp
next
  case (Cons l rest)
  have nb: "\<not> is_blank l" using Cons hd_dropWhile [of is_blank ls] by auto
  have ls: "ls = takeWhile is_blank ls @ l # rest" using Cons by (metis takeWhile_dropWhile_id)
  have bl: "\<forall>x\<in>set (takeWhile is_blank ls). is_blank x" by (auto dest: set_takeWhileD)
  have f1: "filter is_heading (takeWhile is_blank ls) = []"
    using bl blank_not_heading by (auto simp: filter_empty_conv)
  have f2: "filter (\<lambda>l. \<not> is_blank l) (takeWhile is_blank ls) = []"
    using bl by (auto simp: filter_empty_conv)
  have fh: "filter is_heading ls = filter is_heading (l # rest)"
    by (subst ls) (simp add: f1 del: takeWhile_dropWhile_id)
  have fb: "filter (\<lambda>l. \<not> is_blank l) ls = l # filter (\<lambda>l. \<not> is_blank l) rest"
    by (subst ls) (simp add: f2 nb)
  define t0 where "t0 = (if is_heading l then heading_title l else TrimSpace l)"
  have t0: "t0 \<noteq> []" using nb heading_title_nonempty by (auto simp: t0_def is_blank_def)
  have "parseLines ls [] [] False = (last_heading t0 rest, body_lines rest)"
    using parseLines_started [OF t0, of rest "[]"] Cons by (simp add: parseLines_initial t0_def)
  moreover have "spec_title ls = last_heading t0 rest"
    unfolding spec_title_def fh fb
    by (auto simp: t0_def last_heading_def split: list.splits)
  moreover have "spec_body ls = body_lines rest"
    by (simp add: spec_body_def body_lines_def Cons)
  moreover have "\<not> (\<forall>l\<in>set ls. is_blank l)" using nb ls by (metis in_set_conv_decomp)
  ultimately show ?thesis by auto
qed

lemma default_title_nonempty: "default_title \<noteq> []"
  by (simp add: default_title_def)

text \<open>
  C5 (as amended). With \<open>ls\<close> the lines of the text: every top-level heading line sets
  the title, so the title is taken from the last heading line; without a heading line it is
  the first non-blank line, and without a non-blank line the default title. The body holds
  the lines after the first non-blank line, heading lines left out and blank lines kept as
  empty lines; blank lines before the first non-blank line are dropped. The title is then
  stripped of non-printable runes and cut to its first 100 bytes.
\<close>

theorem parseArticle_last_heading:
  "parseArticle U content =
     (let ls = Split (if \<not> ValidString content then ToValidUTF8 content else content) (CHR 0x0A)
      in (clean_title U (spec_title ls), Join (spec_body ls) [CHR 0x0A]))"
proof -
  define ls where
    "ls = Split (if \<not> ValidString content then ToValidUTF8 content else content) (CHR 0x0A)"
  show ?thesis
  proof (cases "\<forall>l\<in>set ls. is_blank l")
    case True
    then have p: "parseLines ls [] [] False = ([], [])" by (simp add: parseLines_spec)
    have "filter is_heading ls = []" using True blank_not_heading by (auto simp: filter_empty_conv)
    moreover have "filter (\<lambda>l. \<not> is_blank l) ls = []" using True by (auto simp: filter_empty_conv)
    ultimately have t: "spec_title ls = default_title" by (simp add: spec_title_def)
    have dw: "dropWhile is_blank ls = []" using True by simp
    have b: "spec_body ls = []" unfolding spec_body_def dw by simp
    show ?thesis
      unfolding parseArticle_def ls_def [symmetric] Let_def p
      by (simp add: t b clean_title_def Let_def)
  next
    case False
    then have p: "parseLines ls [] [] False = (spec_title ls, spec_body ls)"
      unfolding parseLines_spec by auto
    obtain l where l: "l \<in> set ls" "\<not> is_blank l" using False by blast
    have ne: "spec_title ls \<noteq> []"
    proof (cases "filter is_heading ls")
      case Nil
      have "l \<in> set (filter (\<lambda>l. \<not> is_blank l) ls)" using l by simp
      then obtain x xs where x: "filter (\<lambda>l. \<not> is_blank l) ls = x # xs"
        by (cases "filter (\<lambda>l. \<not> is_blank l) ls") auto
      then have "x \<in> set (filter (\<lambda>l. \<not> is_blank l) ls)" by simp
      then have "TrimSpace x \<noteq> []" by (simp add: is_blank_def)
      then show ?thesis using Nil x by (simp add: spec_title_def)
    next
      case (Cons h hs)
      have "last (h # hs) \<in> set (filter is_heading ls)" unfolding Cons by (rule last_in_set) simp
      then have "is_heading (last (h # hs))" by simp
      then show ?thesis using Cons heading_title_nonempty by (simp add: spec_title_def)
    qed
    show ?thesis
      unfolding parseArticle_def ls_def [symmetric] Let_def p
      using ne by (simp add: clean_title_def Let_def)
  qed
qed

lemma TrimSpace_A: "TrimSpace ''# A'' = ''# A''"
  by (simp add: eval_simps)

lemma TrimSpace_B: "TrimSpace ''# B'' = ''# B''"
  by (simp add: eval_simps)

lemma parseLines_AB: "parseLines [''# A'', ''# B''] [] [] False = (''B'', [])"
  by (simp add: TrimSpace_A TrimSpace_B HasPrefix_def TrimPrefix_def)

lemma ValidString_AB: "ValidString [CHR ''#'', CHR '' '', CHR ''A'', CHR 0x0A, CHR ''#'', CHR '' '', CHR ''B'']"
  by (simp add: eval_simps)

lemma clean_B: "Map (\<lambda>r. if IsPrint sample_tables r \<and> \<not> IsControl r then r else - 1) ''B'' = ''B''"
  by (simp add: eval_simps)

text \<open>
  C5 as stated fails: in the text \<open>"# A\n# B"\<close> the first heading line is \<open># A\<close>,
  and the title is \<open>B\<close>.
\<close>

theorem parseArticle_first_heading_counterexample:
  "first_heading_title (Split [CHR ''#'', CHR '' '', CHR ''A'', CHR 0x0A, CHR ''#'', CHR '' '', CHR ''B''] (CHR 0x0A)) = Some ''A''
   \<and> fst (parseArticle sample_tables [CHR ''#'', CHR '' '', CHR ''A'', CHR 0x0A, CHR ''#'', CHR '' '', CHR ''B'']) = ''B''"
  by (simp add: parseArticle_def ValidString_AB parseLines_AB clean_B first_heading_title_def
      is_heading_def heading_title_def TrimSpace_A TrimSpace_B HasPrefix_def TrimPrefix_def)

text \<open>The example of the specification: no heading, first line \<open>How to breathe\<close>.\<close>

lemma TrimSpace_breathe: "TrimSpace ''How to breathe'' = ''How to breathe''"
  by (simp add: eval_simps)

lemma TrimSpace_p1: "TrimSpace ''p1'' = ''p1''"
  by (simp add: eval_simps)

lemma TrimSpace_empty: "TrimSpace [] = []"
  by (simp add: TrimSpace_def)

lemma clean_title_breathe: "clean_title sample_tables ''How to breathe'' = ''How to breathe''"
  by (simp add: clean_title_def eval_simps)

lemma ValidString_breathe:
  "ValidString (''How to breathe'' @ [CHR 0x0A, CHR 0x0A] @ ''p1'')"
  by (simp add: eval_simps)

theorem parseArticle_last_heading_witness:
  "parseArticle sample_tables (''How to breathe'' @ [CHR 0x0A, CHR 0x0A] @ ''p1'')
     = (''How to breathe'', [CHR 0x0A] @ ''p1'')"
  using parseArticle_last_heading [of sample_tables "''How to breathe'' @ [CHR 0x0A, CHR 0x0A] @ ''p1''"]
  by (simp add: ValidString_breathe [simplified] spec_title_def spec_body_def is_heading_def
      is_blank_def TrimSpace_breathe TrimSpace_p1 TrimSpace_empty HasPrefix_def
      clean_title_breathe Let_def)

section \<open>Properties of GetTask\<close>

text \<open>
  C7 (as amended). \<open>GetTask\<close> reads the status key only for an id of the set. An id that
  is not in the set fails with \<open>msg_task_not_exist\<close>, and an id of the set whose key has
  expired fails with the very same error, so the caller cannot tell the two apart. An
  error of the store on either read and a stored value that cannot be parsed fail with
  messages of their own, and an id of the set whose key holds a task gives that task.
\<close>

theorem GetTask_absent_and_expired:
  "(sismember_error env = None \<and> taskID \<notin> members w \<longrightarrow>
      GetTask env w taskID = Inl msg_task_not_exist)
   \<and> (sismember_error env = None \<and> taskID \<in> members w \<and> get_error env = None
        \<and> kv w (''task:'' @ taskID) = None \<longrightarrow>
      GetTask env w taskID = Inl msg_task_not_exist)
   \<and> (sismember_error env = Some e \<longrightarrow>
      GetTask env w taskID = Inl (msg_check_exists_failed @ e))
   \<and> (sismember_error env = None \<and> taskID \<in> members w \<and> get_error env = Some e \<longrightarrow>
      GetTask env w taskID = Inl (msg_get_task_failed @ e))
   \<and> (sismember_error env = None \<and> taskID \<in> members w \<and> get_error env = None
        \<and> kv w (''task:'' @ taskID) = Some (Malformed e) \<longrightarrow>
      GetTask env w taskID = Inl (msg_parse_task_failed @ e))
   \<and> (sismember_error env = None \<and> taskID \<in> members w \<and> get_error env = None
        \<and> kv w (''task:'' @ taskID) = Some (Payload task) \<longrightarrow>
      GetTask env w taskID = Inr task)"
  by (simp add: GetTask_def)

theorem GetTask_absent_and_expired_witness:
  "sismember_error no_get_errors = None \<and> get_error no_get_errors = None
   \<and> ''t1'' \<notin> members empty_world
   \<and> GetTask no_get_errors empty_world ''t1'' = Inl msg_task_not_exist
   \<and> ''t1'' \<in> members (empty_world\<lparr>members := {''t1''}\<rparr>)
   \<and> kv (empty_world\<lparr>members := {''t1''}\<rparr>) (''task:'' @ ''t1'') = None
   \<and> GetTask no_get_errors (empty_world\<lparr>members := {''t1''}\<rparr>) ''t1'' = Inl msg_task_not_exist
   \<and> GetTask (no_get_errors\<lparr>get_error := Some ''down''\<rparr>) (empty_world\<lparr>members := {''t1''}\<rparr>) ''t1''
       = Inl (msg_get_task_failed @ ''down'')"
  using GetTask_absent_and_expired [of no_get_errors "''t1''" empty_world]
    GetTask_absent_and_expired [of no_get_errors "''t1''" "empty_world\<lparr>members := {''t1''}\<rparr>"]
    GetTask_absent_and_expired [of "no_get_errors\<lparr>get_error := Some ''down''\<rparr>" "''t1''"
      "empty_world\<lparr>members := {''t1''}\<rparr>" "''down''"]
  by (simp add: no_get_errors_def empty_world_def)

text \<open>
  C7 as stated fails: the caller gets the same error for the id \<open>t1\<close> when it is not in
  the set and when it is in the set with its key expired.
\<close>

theorem GetTask_expired_counterexample:
  "GetTask no_get_errors empty_world ''t1'' = Inl msg_task_not_exist
   \<and> GetTask no_get_errors (empty_world\<lparr>members := {''t1''}\<rparr>) ''t1'' = Inl msg_task_not_exist
   \<and> GetTask no_get_errors empty_world ''t1''
       = GetTask no_get_errors (empty_world\<lparr>members := {''t1''}\<rparr>) ''t1''"
  by (simp add: GetTask_def no_get_errors_def empty_world_def)

section \<open>Properties of the worker loop\<close>




lemma processTask_keyword_fails:
  assumes "blpop_error it = None" "queue w = Payload t0 # rest"
    "db_first it (KeywordID t0) = Inl err"
  shows "trace (processTask it w)
           = trace w @ [SetStatus (running_task it t0),
                        SetStatus (failed_task it t0 (msg_get_keyword_failed @ err))]"
    and "queue (processTask it w) = rest"
    and "set_final_applied it \<Longrightarrow>
         kv (processTask it w) (''task:'' @ ID t0)
           = Some (Payload (failed_task it t0 (msg_get_keyword_failed @ err)))"
  using assms
  by (simp_all add: processTask_def updateTaskStatus_def Let_def running_task_def failed_task_def)

lemma processTask_generation_fails:
  assumes "blpop_error it = None" "queue w = Payload t0 # rest"
    "db_first it (KeywordID t0) = Inr kw"
    "GenerateArticle (gen it) kw (CategoryIDs t0) = (evs, Inl err)"
  shows "trace (processTask it w)
           = trace w @ [SetStatus (running_task it t0)] @ evs
             @ [SetStatus (failed_task it t0 (msg_generate_article_failed @ err))]"
    and "queue (processTask it w) = rest"
    and "set_final_applied it \<Longrightarrow>
         kv (processTask it w) (''task:'' @ ID t0)
           = Some (Payload (failed_task it t0 (msg_generate_article_failed @ err)))"
  using assms
  by (simp_all add: processTask_def updateTaskStatus_def Let_def running_task_def failed_task_def)

lemma processTask_generation_succeeds:
  assumes "blpop_error it = None" "queue w = Payload t0 # rest"
    "db_first it (KeywordID t0) = Inr kw"
    "GenerateArticle (gen it) kw (CategoryIDs t0) = (evs, Inr article)"
  shows "trace (processTask it w)
           = trace w @ [SetStatus (running_task it t0)] @ evs
             @ [SetStatus (completed_task it t0)]
             @ (if UserID t0 > 0
                then [DbSaveArticle (article\<lparr>ArticleUserID := Some (UserID t0)\<rparr>)] else [])"
    and "queue (processTask it w) = rest"
    and "set_final_applied it \<Longrightarrow>
         kv (processTask it w) (''task:'' @ ID t0) = Some (Payload (completed_task it t0))"
  using assms
  by (simp_all add: processTask_def updateTaskStatus_def Let_def running_task_def completed_task_def)


















text \<open>
  C9 (as amended). A turn that takes a task from the queue writes \<open>running\<close> first. When
  the keyword cannot be resolved it then writes \<open>failed\<close> with the reason and makes no
  other call; when the generation fails it writes \<open>failed\<close> with the error text; when
  the generation succeeds it writes \<open>completed\<close> first and only then, and only for a
  task with a user id, saves the article with its author. In every case the task has left
  the queue and the loop goes on with the next turn.
\<close>

theorem worker_turn_order:
  assumes "blpop_error it = None" "queue w = Payload t0 # rest"
  shows "(db_first it (KeywordID t0) = Inl err \<longrightarrow>
            trace (processTask it w)
              = trace w @ [SetStatus (running_task it t0),
                           SetStatus (failed_task it t0 (msg_get_keyword_failed @ err))])
         \<and> (db_first it (KeywordID t0) = Inr kw
              \<and> GenerateArticle (gen it) kw (CategoryIDs t0) = (evs, Inl err) \<longrightarrow>
            trace (processTask it w)
              = trace w @ [SetStatus (running_task it t0)] @ evs
                @ [SetStatus (failed_task it t0 (msg_generate_article_failed @ err))])
         \<and> (db_first it (KeywordID t0) = Inr kw
              \<and> GenerateArticle (gen it) kw (CategoryIDs t0) = (evs, Inr article) \<longrightarrow>
            trace (processTask it w)
              = trace w @ [SetStatus (running_task it t0)] @ evs
                @ [SetStatus (completed_task it t0)]
                @ (if UserID t0 > 0
                   then [DbSaveArticle (article\<lparr>ArticleUserID := Some (UserID t0)\<rparr>)] else []))
         \<and> queue (processTask it w) = rest
         \<and> ProcessTasks (it # its) w = ProcessTasks its (processTask it w)"
proof -
  have q: "queue (processTask it w) = rest"
  proof (cases "db_first it (KeywordID t0)")
    case (Inl e)
    show ?thesis by (rule processTask_keyword_fails(2) [OF assms Inl])
  next
    case (Inr k)
    obtain es res where g: "GenerateArticle (gen it) k (CategoryIDs t0) = (es, res)"
      by (cases "GenerateArticle (gen it) k (CategoryIDs t0)")
    show ?thesis
    proof (cases res)
      case (Inl e)
      show ?thesis by (rule processTask_generation_fails(2) [OF assms Inr g [unfolded Inl]])
    next
      case r: (Inr a)
      show ?thesis by (rule processTask_generation_succeeds(2) [OF assms Inr g [unfolded r]])
    qed
  qed
  show ?thesis
    using q processTask_keyword_fails(1) [OF assms, of err]
      processTask_generation_fails(1) [OF assms, of kw evs err]
      processTask_generation_succeeds(1) [OF assms, of kw evs article]
    by simp
qed

lemma GenerateArticle_gen_up:
  "GenerateArticle gen_up keyword_1 [] =
     ([DbCreateTask ''w'', ProviderCall DeepSeek 30 ''w'',
       DbUpdateTask [(''model_used'', ''deepseek'')], TxBegin, TxCreateArticle article_1,
       TxAppendKeyword 1, TxUpdateTask, TxCommit],
      Inr article_1)"
  by (simp add: GenerateArticle_def persist_def gen_up_def generateWithDeepSeek_def
      DeepSeek_GenerateContent_def Let_def keyword_1_def article_1_def)

lemma turn_up_facts:
  "blpop_error turn_up = None" "queue one_task_world = Payload task_1 # []"
  "db_first turn_up (KeywordID task_1) = Inr keyword_1" "gen turn_up = gen_up"
  "CategoryIDs task_1 = []" "UserID task_1 = 3" "trace one_task_world = []"
  by (simp_all add: turn_up_def one_task_world_def empty_world_def task_1_def)

theorem worker_turn_order_witness:
  "blpop_error turn_up = None \<and> queue one_task_world = Payload task_1 # []
   \<and> db_first turn_up (KeywordID task_1) = Inr keyword_1
   \<and> trace (processTask turn_up one_task_world)
       = [SetStatus (running_task turn_up task_1)]
         @ fst (GenerateArticle gen_up keyword_1 [])
         @ [SetStatus (completed_task turn_up task_1),
            DbSaveArticle (article_1\<lparr>ArticleUserID := Some 3\<rparr>)]
   \<and> queue (processTask turn_up one_task_world) = []"
  using worker_turn_order [of turn_up one_task_world task_1 "[]" _ keyword_1
      "fst (GenerateArticle gen_up keyword_1 [])" article_1]
  by (simp add: turn_up_facts GenerateArticle_gen_up)

text \<open>
  C9 as stated fails: on success the status \<open>completed\<close> is written before the article
  is saved with its author, not after; and an error does not always write \<open>failed\<close>: a
  payload that cannot be parsed is dropped without any write.
\<close>

theorem worker_saves_after_completed_counterexample:
  "trace (processTask turn_up one_task_world)
     = [SetStatus (running_task turn_up task_1), DbCreateTask ''w'',
        ProviderCall DeepSeek 30 ''w'', DbUpdateTask [(''model_used'', ''deepseek'')],
        TxBegin, TxCreateArticle article_1, TxAppendKeyword 1, TxUpdateTask, TxCommit,
        SetStatus (completed_task turn_up task_1),
        DbSaveArticle (article_1\<lparr>ArticleUserID := Some 3\<rparr>)]
   \<and> Status (completed_task turn_up task_1) = TaskStatusCompleted
   \<and> \<not> saved_before_completed (trace (processTask turn_up one_task_world))
   \<and> trace (processTask turn_up (empty_world\<lparr>queue := [Malformed ''x'']\<rparr>)) = []"
proof -
  have t: "trace (processTask turn_up one_task_world)
     = [SetStatus (running_task turn_up task_1), DbCreateTask ''w'',
        ProviderCall DeepSeek 30 ''w'', DbUpdateTask [(''model_used'', ''deepseek'')],
        TxBegin, TxCreateArticle article_1, TxAppendKeyword 1, TxUpdateTask, TxCommit,
        SetStatus (completed_task turn_up task_1),
        DbSaveArticle (article_1\<lparr>ArticleUserID := Some 3\<rparr>)]"
    using processTask_generation_succeeds(1)
      [OF turn_up_facts(1,2,3), of _ article_1]
    by (simp add: turn_up_facts GenerateArticle_gen_up)
  have c: "Status (completed_task turn_up task_1) = TaskStatusCompleted"
    "Status (running_task turn_up task_1) = TaskStatusRunning"
    by (simp_all add: completed_task_def running_task_def)
  have m: "trace (processTask turn_up (empty_world\<lparr>queue := [Malformed ''x'']\<rparr>)) = []"
    by (simp add: processTask_def turn_up_def empty_world_def)
  show ?thesis unfolding t using c m by simp
qed

section \<open>Properties of the fallback between the providers\<close>

lemma provider_calls_append:
  "provider_calls (xs @ ys) = provider_calls xs @ provider_calls ys"
  by (induction xs rule: provider_calls.induct) simp_all

lemma persist_no_calls: "provider_calls (fst (persist env k cs a)) = []"
  by (simp add: persist_def Let_def split: option.splits prod.splits)

lemma attempt_fails_iff:
  "attempt_fails unmarshal h = (\<exists>e. DeepSeek_GenerateContent unmarshal h = Inl e)"
  by (auto simp: attempt_fails_def DeepSeek_GenerateContent_def
      split: http_outcome.splits sum.splits list.splits)

lemma GenerateArticle_primary_ok:
  assumes "db_create_task env = None"
    "generateWithDeepSeek env (render_prompt env (Word kw)) = Inr c"
  shows "provider_calls (fst (GenerateArticle env kw cs))
           = [(DeepSeek, ai_timeout env, render_prompt env (Word kw))]"
    and "snd (GenerateArticle env kw cs)
           = snd (persist env kw cs (assemble (tables env) (unix_now env) c))"
  using assms persist_no_calls [of env kw cs "assemble (tables env) (unix_now env) c"]
  by (simp_all add: GenerateArticle_def Let_def provider_calls_append case_prod_beta)

lemma GenerateArticle_secondary_ok:
  assumes "db_create_task env = None"
    "generateWithDeepSeek env (render_prompt env (Word kw)) = Inl e1"
    "generateWithOllama env (render_prompt env (Word kw)) = Inr c"
  shows "provider_calls (fst (GenerateArticle env kw cs))
           = [(DeepSeek, ai_timeout env, render_prompt env (Word kw)),
              (Ollama, ai_timeout env, render_prompt env (Word kw))]"
    and "snd (GenerateArticle env kw cs)
           = snd (persist env kw cs (assemble (tables env) (unix_now env) c))"
  using assms persist_no_calls [of env kw cs "assemble (tables env) (unix_now env) c"]
  by (simp_all add: GenerateArticle_def Let_def provider_calls_append case_prod_beta)

lemma GenerateArticle_both_fail:
  assumes "db_create_task env = None"
    "generateWithDeepSeek env (render_prompt env (Word kw)) = Inl e1"
    "generateWithOllama env (render_prompt env (Word kw)) = Inl e2"
  shows "GenerateArticle env kw cs
           = ([DbCreateTask (render_prompt env (Word kw)),
               ProviderCall DeepSeek (ai_timeout env) (render_prompt env (Word kw)),
               DbUpdateTask [(''error_message'', e1)],
               ProviderCall Ollama (ai_timeout env) (render_prompt env (Word kw)),
               DbUpdateTask [(''status'', ''failed''), (''error_message'', e2)]],
              Inl (msg_generate_content_failed @ e2))"
  using assms by (simp add: GenerateArticle_def Let_def)

lemma Ollama_error_nonempty: "Ollama_GenerateContent unmarshal h = Inl e \<Longrightarrow> e \<noteq> []"
  by (auto simp: Ollama_GenerateContent_def msg_marshal_request_failed_def
      msg_new_request_failed_def msg_request_failed_def msg_read_body_failed_def
      msg_api_error_def msg_parse_response_failed_def
      split: http_outcome.splits sum.splits if_splits)

lemma msg_generate_article_failed_nonempty: "msg_generate_article_failed @ e \<noteq> []"
  by (simp add: msg_generate_article_failed_def)

text \<open>
  C2 (as amended). Once the row of the generation task is created, \<open>GenerateArticle\<close>
  calls DeepSeek first. When that call succeeds no other provider is called. It fails
  exactly on the outcomes of \<open>attempt_fails\<close> (a response with a choice is a success,
  whatever its text); then Ollama is called once, with the same timeout and the same
  prompt, and nothing else is called. When Ollama succeeds its text makes the article;
  when both fail the error is \<open>msg_generate_content_failed\<close> followed by the error of
  Ollama, the last call sets the row of the generation task to \<open>failed\<close> with that
  error, which is not empty, and the worker ends the task with the status \<open>failed\<close> and
  a non-empty error message.
\<close>

theorem generation_falls_back_once:
  assumes "db_create_task env = None"
  shows "(generateWithDeepSeek env (render_prompt env (Word kw)) = Inr c \<longrightarrow>
            provider_calls (fst (GenerateArticle env kw cs))
              = [(DeepSeek, ai_timeout env, render_prompt env (Word kw))])
         \<and> (generateWithDeepSeek env (render_prompt env (Word kw)) = Inl e1 \<longrightarrow>
            provider_calls (fst (GenerateArticle env kw cs))
              = [(DeepSeek, ai_timeout env, render_prompt env (Word kw)),
                 (Ollama, ai_timeout env, render_prompt env (Word kw))])
         \<and> (generateWithDeepSeek env (render_prompt env (Word kw)) = Inl e1
              \<and> generateWithOllama env (render_prompt env (Word kw)) = Inr c \<longrightarrow>
            snd (GenerateArticle env kw cs)
              = snd (persist env kw cs (assemble (tables env) (unix_now env) c)))
         \<and> (generateWithDeepSeek env (render_prompt env (Word kw)) = Inl e1
              \<and> generateWithOllama env (render_prompt env (Word kw)) = Inl e2 \<longrightarrow>
            snd (GenerateArticle env kw cs) = Inl (msg_generate_content_failed @ e2)
            \<and> last (fst (GenerateArticle env kw cs))
                = DbUpdateTask [(''status'', ''failed''), (''error_message'', e2)]
            \<and> e2 \<noteq> [])
         \<and> attempt_fails (deepseek_unmarshal env)
               (deepseek_http env (ai_timeout env) (render_prompt env (Word kw)))
             = (\<exists>e. generateWithDeepSeek env (render_prompt env (Word kw)) = Inl e)
         \<and> (generateWithDeepSeek env (render_prompt env (Word kw)) = Inl e1
              \<and> generateWithOllama env (render_prompt env (Word kw)) = Inl e2
              \<and> blpop_error it = None \<and> queue w = Payload t0 # rest
              \<and> db_first it (KeywordID t0) = Inr kw \<and> gen it = env \<and> CategoryIDs t0 = cs \<longrightarrow>
            last (trace (processTask it w))
              = SetStatus (failed_task it t0
                  (msg_generate_article_failed @ msg_generate_content_failed @ e2))
            \<and> Status (failed_task it t0
                  (msg_generate_article_failed @ msg_generate_content_failed @ e2)) = TaskStatusFailed
            \<and> Error (failed_task it t0
                  (msg_generate_article_failed @ msg_generate_content_failed @ e2)) \<noteq> [])"
proof -
  let ?p = "render_prompt env (Word kw)"
  have c1: "generateWithDeepSeek env ?p = Inr c \<longrightarrow>
            provider_calls (fst (GenerateArticle env kw cs)) = [(DeepSeek, ai_timeout env, ?p)]"
    using GenerateArticle_primary_ok(1) [OF assms] by blast
  have c2: "generateWithDeepSeek env ?p = Inl e1 \<longrightarrow>
            provider_calls (fst (GenerateArticle env kw cs))
              = [(DeepSeek, ai_timeout env, ?p), (Ollama, ai_timeout env, ?p)]"
  proof
    assume d: "generateWithDeepSeek env ?p = Inl e1"
    show "provider_calls (fst (GenerateArticle env kw cs))
              = [(DeepSeek, ai_timeout env, ?p), (Ollama, ai_timeout env, ?p)]"
    proof (cases "generateWithOllama env ?p")
      case (Inl e2)
      show ?thesis unfolding GenerateArticle_both_fail [OF assms d Inl] by simp
    next
      case (Inr c')
      show ?thesis by (rule GenerateArticle_secondary_ok(1) [OF assms d Inr])
    qed
  qed
  have c3: "generateWithDeepSeek env ?p = Inl e1 \<and> generateWithOllama env ?p = Inr c \<longrightarrow>
            snd (GenerateArticle env kw cs)
              = snd (persist env kw cs (assemble (tables env) (unix_now env) c))"
    using GenerateArticle_secondary_ok(2) [OF assms] by blast
  have c4: "generateWithDeepSeek env ?p = Inl e1 \<and> generateWithOllama env ?p = Inl e2 \<longrightarrow>
            snd (GenerateArticle env kw cs) = Inl (msg_generate_content_failed @ e2)
            \<and> last (fst (GenerateArticle env kw cs))
                = DbUpdateTask [(''status'', ''failed''), (''error_message'', e2)]
            \<and> e2 \<noteq> []"
    using GenerateArticle_both_fail [OF assms] Ollama_error_nonempty [of _ _ e2]
    by (auto simp: generateWithOllama_def)
  have c5: "attempt_fails (deepseek_unmarshal env) (deepseek_http env (ai_timeout env) ?p)
             = (\<exists>e. generateWithDeepSeek env ?p = Inl e)"
    by (simp add: attempt_fails_iff generateWithDeepSeek_def)
  have c6: "generateWithDeepSeek env ?p = Inl e1 \<and> generateWithOllama env ?p = Inl e2
              \<and> blpop_error it = None \<and> queue w = Payload t0 # rest
              \<and> db_first it (KeywordID t0) = Inr kw \<and> gen it = env \<and> CategoryIDs t0 = cs \<longrightarrow>
            last (trace (processTask it w))
              = SetStatus (failed_task it t0
                  (msg_generate_article_failed @ msg_generate_content_failed @ e2))
            \<and> Status (failed_task it t0
                  (msg_generate_article_failed @ msg_generate_content_failed @ e2)) = TaskStatusFailed
            \<and> Error (failed_task it t0
                  (msg_generate_article_failed @ msg_generate_content_failed @ e2)) \<noteq> []"
  proof (intro impI, elim conjE)
    assume a: "generateWithDeepSeek env ?p = Inl e1" "generateWithOllama env ?p = Inl e2"
      "blpop_error it = None" "queue w = Payload t0 # rest"
      "db_first it (KeywordID t0) = Inr kw" "gen it = env" "CategoryIDs t0 = cs"
    have g: "GenerateArticle (gen it) kw (CategoryIDs t0)
               = (fst (GenerateArticle env kw cs), Inl (msg_generate_content_failed @ e2))"
      using GenerateArticle_both_fail [OF assms a(1,2), of cs] a(6,7) by simp
    show "last (trace (processTask it w))
              = SetStatus (failed_task it t0
                  (msg_generate_article_failed @ msg_generate_content_failed @ e2))
            \<and> Status (failed_task it t0
                  (msg_generate_article_failed @ msg_generate_content_failed @ e2)) = TaskStatusFailed
            \<and> Error (failed_task it t0
                  (msg_generate_article_failed @ msg_generate_content_failed @ e2)) \<noteq> []"
      unfolding processTask_generation_fails(1) [OF a(3,4,5) g]
      by (simp add: failed_task_def msg_generate_article_failed_def)
  qed
  show ?thesis using c1 c2 c3 c4 c5 c6 by blast
qed

lemma gen_down_facts:
  "db_create_task gen_down = None"
  "generateWithDeepSeek gen_down (render_prompt gen_down (Word keyword_1))
     = Inl (msg_request_failed @ ''timeout'')"
  "generateWithOllama gen_down (render_prompt gen_down (Word keyword_1))
     = Inl (msg_api_error @ ''busy'')"
  "blpop_error turn_down = None" "db_first turn_down (KeywordID task_1) = Inr keyword_1"
  "gen turn_down = gen_down" "ai_timeout gen_down = 30"
  "render_prompt gen_down (Word keyword_1) = ''w''"
  by (simp_all add: gen_down_def gen_up_def turn_down_def turn_up_def keyword_1_def
      generateWithDeepSeek_def generateWithOllama_def DeepSeek_GenerateContent_def
      Ollama_GenerateContent_def)

theorem generation_falls_back_once_witness:
  "db_create_task gen_down = None
   \<and> generateWithDeepSeek gen_down ''w'' = Inl (msg_request_failed @ ''timeout'')
   \<and> generateWithOllama gen_down ''w'' = Inl (msg_api_error @ ''busy'')
   \<and> provider_calls (fst (GenerateArticle gen_down keyword_1 []))
       = [(DeepSeek, 30, ''w''), (Ollama, 30, ''w'')]
   \<and> snd (GenerateArticle gen_down keyword_1 [])
       = Inl (msg_generate_content_failed @ msg_api_error @ ''busy'')
   \<and> last (fst (GenerateArticle gen_down keyword_1 []))
       = DbUpdateTask [(''status'', ''failed''), (''error_message'', msg_api_error @ ''busy'')]
   \<and> attempt_fails (deepseek_unmarshal gen_down) (deepseek_http gen_down 30 ''w'')
   \<and> last (trace (processTask turn_down one_task_world))
       = SetStatus (failed_task turn_down task_1
           (msg_generate_article_failed @ msg_generate_content_failed @ msg_api_error @ ''busy''))"
  using generation_falls_back_once [OF gen_down_facts(1), where kw = keyword_1
      and ?e1.0 = "msg_request_failed @ ''timeout''" and cs = "[]"
      and ?e2.0 = "msg_api_error @ ''busy''" and it = turn_down and w = one_task_world
      and ?t0.0 = task_1 and rest = "[]"]
    gen_down_facts turn_up_facts
  by simp

text \<open>
  C2 as stated fails: an empty result of DeepSeek (a choice whose text is empty) is a
  success, so Ollama is not called and the article is made from the empty text; and when
  the row of the generation task cannot be created no provider is called at all.
\<close>

theorem generation_empty_text_counterexample:
  "generateWithDeepSeek gen_empty_text ''w'' = Inr []
   \<and> provider_calls (fst (GenerateArticle gen_empty_text keyword_1 [])) = [(DeepSeek, 30, ''w'')]
   \<and> snd (GenerateArticle gen_empty_text keyword_1 [])
       = Inr ((assemble sample_tables 1700000000 [])\<lparr>ArticleID := 1\<rparr>)
   \<and> GenerateArticle gen_no_row keyword_1 []
       = ([DbCreateTask ''w''], Inl (msg_create_task_failed @ ''db down''))
   \<and> provider_calls (fst (GenerateArticle gen_no_row keyword_1 [])) = []"
  by (simp add: GenerateArticle_def persist_def gen_empty_text_def gen_no_row_def gen_up_def
      generateWithDeepSeek_def DeepSeek_GenerateContent_def Let_def keyword_1_def)

section \<open>Properties of BatchAddTasks\<close>

lemma enqueue_all_Nil [simp]: "enqueue_all [] w = w"
  by (simp add: enqueue_all_def)

lemma batch_tasks_Nil [simp]: "batch_tasks nanos env cs u i [] = []"
  by (simp add: batch_tasks_def)






















end
